theory Spec2Isabelle
  imports Complex_Main "HOL-Library.Stream"
begin

section \<open>QAOA for MaxCut: the two circuit variants\<close>

text \<open>
  The repository holds two variants of one program: \<^verbatim>\<open>main.py\<close> (fixed 4-cycle graph,
  Adagrad, a device with one shot per execution) and \<^verbatim>\<open>test.py\<close> (edge list as an
  argument, gradient descent, an analytic device). Both queue PennyLane gates inside a
  quantum function. A quantum function is modelled by the list of operations it queues
  (the tape), threaded through the calls that queue; the floats of the source are read
  as real numbers.
\<close>

subsection \<open>Errors, operations, measurements\<close>

text \<open>
  The failures of the model: an index beyond a sequence; a ValueError (\<^verbatim>\<open>max\<close> of an empty
  sequence, a CNOT queued on two equal wires); a gate or observable on a wire the register
  does not have (the spec's DimensionError); a sample asked of a device without shots; a
  TypeError (an array of the wrong element type, arithmetic on a result that is not a
  number). ModeError is the error that section 7 of the spec names for an expectation
  requested without an edge; the source defines no such error and no function of the model
  returns it.
\<close>

datatype error = IndexError | ValueError | DimensionError | DeviceError | TypeError | ModeError

type_synonym edge = "nat \<times> nat"

text \<open>The four gates the source queues, each with its angle (if any) and its wires.\<close>

datatype op = Hadamard nat | RX real nat | RZ real nat | CNOT nat nat

text \<open>
  What a quantum function returns: \<^verbatim>\<open>qml.sample()\<close>, or
  \<^verbatim>\<open>qml.expval(qml.PauliZ(i) @ qml.PauliZ(j))\<close>.
\<close>

datatype measurement = Sample | Expval nat nat

text \<open>Indexing a sequence with a non-negative index: out of range raises.\<close>

definition getitem :: "'a list \<Rightarrow> nat \<Rightarrow> error + 'a" where
  "getitem xs i = (if i < length xs then Inr (xs ! i) else Inl IndexError)"

fun op_wires :: "op \<Rightarrow> nat set" where
  "op_wires (Hadamard w) = {w}"
| "op_wires (RX theta w) = {w}"
| "op_wires (RZ theta w) = {w}"
| "op_wires (CNOT c t) = {c, t}"

subsection \<open>main.py: the tape of \<^verbatim>\<open>circuit\<close>\<close>

definition n_wires :: nat where
  "n_wires = 4"

definition graph_edges :: "edge list" where
  "graph_edges = [(0, 1), (0, 3), (1, 2), (2, 3)]"

text \<open>
  \<^verbatim>\<open>U_B\<close> and \<^verbatim>\<open>U_C\<close> queue on the wires and the edges of the fixed graph. Every edge of
  it joins two different wires, so no \<^verbatim>\<open>qml.CNOT\<close> of \<^verbatim>\<open>U_C\<close> is refused while it is
  queued.
\<close>

definition U_B :: "real \<Rightarrow> op list \<Rightarrow> op list" where
  "U_B beta tape = fold (\<lambda>wire t. t @ [RX (2 * beta) wire]) [0..<n_wires] tape"

definition U_C :: "real \<Rightarrow> op list \<Rightarrow> op list" where
  "U_C gamma tape =
     fold (\<lambda>edge t.
        (let wire1 = fst edge; wire2 = snd edge
         in t @ [CNOT wire1 wire2, RZ gamma wire2, CNOT wire1 wire2]))
       graph_edges tape"

text \<open>The loop \<^verbatim>\<open>for i in range(n_layers): U_C(gammas[i]); U_B(betas[i])\<close>.\<close>

fun circuit_layers :: "real list \<Rightarrow> real list \<Rightarrow> nat list \<Rightarrow> op list \<Rightarrow> error + op list" where
  "circuit_layers gammas betas [] tape = Inr tape"
| "circuit_layers gammas betas (i # rest) tape =
     (case getitem gammas i of
        Inl e \<Rightarrow> Inl e
      | Inr gamma \<Rightarrow>
          (let tape1 = U_C gamma tape
           in case getitem betas i of
                Inl e \<Rightarrow> Inl e
              | Inr beta \<Rightarrow> circuit_layers gammas betas rest (U_B beta tape1)))"

text \<open>
  The body of \<^verbatim>\<open>circuit\<close> under its \<^verbatim>\<open>@qml.qnode(dev)\<close> decorator: the queued
  operations and the measurement it returns. With no edge the measurement is a sample,
  with an edge it is the expectation of the ZZ observable of that edge.
\<close>

definition circuit_func ::
  "real list \<Rightarrow> real list \<Rightarrow> edge option \<Rightarrow> nat \<Rightarrow> error + (op list \<times> measurement)" where
  "circuit_func gammas betas edge n_layers =
     (case circuit_layers gammas betas [0..<n_layers]
             (fold (\<lambda>wire t. t @ [Hadamard wire]) [0..<n_wires] []) of
        Inl e \<Rightarrow> Inl e
      | Inr tape \<Rightarrow>
          (case edge of
             None \<Rightarrow> Inr (tape, Sample)
           | Some e \<Rightarrow> Inr (tape, Expval (fst e) (snd e))))"

subsection \<open>test.py: the tape of \<^verbatim>\<open>qaoa_circuit\<close>\<close>

text \<open>Python's \<^verbatim>\<open>max\<close> of a sequence: an empty one raises ValueError.\<close>

definition py_max :: "nat list \<Rightarrow> error + nat" where
  "py_max xs = (case xs of [] \<Rightarrow> Inl ValueError | x # rest \<Rightarrow> Inr (fold max rest x))"

text \<open>
  \<^verbatim>\<open>num_qubits = max(max(edge) for edge in edges) + 1\<close>, the first statement of both
  \<^verbatim>\<open>qaoa_circuit\<close> and \<^verbatim>\<open>optimize_qaoa\<close>.
\<close>

definition num_qubits :: "edge list \<Rightarrow> error + nat" where
  "num_qubits edges =
     (case py_max (map (\<lambda>edge. max (fst edge) (snd edge)) edges) of
        Inl e \<Rightarrow> Inl e
      | Inr m \<Rightarrow> Inr (m + 1))"

text \<open>
  The cost loop of one layer. At every edge \<^verbatim>\<open>qml.CNOT(wires=[i, j])\<close> comes first: it
  raises ValueError while it is queued when \<open>i = j\<close>, since the control wire of a CNOT must
  differ from its target. Then \<^verbatim>\<open>params[layer]\<close> is read for the RZ.
\<close>

fun cost_unitary :: "real list \<Rightarrow> nat \<Rightarrow> edge list \<Rightarrow> op list \<Rightarrow> error + op list" where
  "cost_unitary params layer [] tape = Inr tape"
| "cost_unitary params layer ((i, j) # rest) tape =
     (if i = j then Inl ValueError
      else case getitem params layer of
        Inl e \<Rightarrow> Inl e
      | Inr g \<Rightarrow> cost_unitary params layer rest (tape @ [CNOT i j, RZ (- 2 * g) j, CNOT i j]))"

text \<open>The mixer loop of one layer; \<^verbatim>\<open>params[p + layer]\<close> is read at every wire.\<close>

fun mixer_unitary :: "real list \<Rightarrow> nat \<Rightarrow> nat list \<Rightarrow> op list \<Rightarrow> error + op list" where
  "mixer_unitary params k [] tape = Inr tape"
| "mixer_unitary params k (i # rest) tape =
     (case getitem params k of
        Inl e \<Rightarrow> Inl e
      | Inr b \<Rightarrow> mixer_unitary params k rest (tape @ [RX (2 * b) i]))"

fun qaoa_layers ::
  "real list \<Rightarrow> edge list \<Rightarrow> nat \<Rightarrow> nat \<Rightarrow> nat list \<Rightarrow> op list \<Rightarrow> error + op list" where
  "qaoa_layers params edges p nq [] tape = Inr tape"
| "qaoa_layers params edges p nq (layer # rest) tape =
     (case cost_unitary params layer edges tape of
        Inl e \<Rightarrow> Inl e
      | Inr tape1 \<Rightarrow>
          (case mixer_unitary params (p + layer) [0..<nq] tape1 of
             Inl e \<Rightarrow> Inl e
           | Inr tape2 \<Rightarrow> qaoa_layers params edges p nq rest tape2))"

definition qaoa_circuit ::
  "real list \<Rightarrow> edge list \<Rightarrow> nat \<Rightarrow> error + (op list \<times> measurement list)" where
  "qaoa_circuit params edges p =
     (case num_qubits edges of
        Inl e \<Rightarrow> Inl e
      | Inr nq \<Rightarrow>
          (case qaoa_layers params edges p nq [0..<p]
                  (fold (\<lambda>i t. t @ [Hadamard i]) [0..<nq] []) of
             Inl e \<Rightarrow> Inl e
           | Inr tape \<Rightarrow> Inr (tape, map (\<lambda>(i, j). Expval i j) edges)))"

text \<open>
  A device: its number of wires and its shots (\<^verbatim>\<open>None\<close> when the call gives none).
  \<^verbatim>\<open>optimize_qaoa\<close> creates \<^verbatim>\<open>qml.device("default.qubit", wires=num_qubits)\<close>.
\<close>

record device =
  dev_wires :: nat
  dev_shots :: "nat option"

definition optimize_qaoa_dev :: "edge list \<Rightarrow> error + device" where
  "optimize_qaoa_dev edges =
     (case num_qubits edges of
        Inl e \<Rightarrow> Inl e
      | Inr nq \<Rightarrow> Inr \<lparr>dev_wires = nq, dev_shots = None\<rparr>)"

subsection \<open>main.py: the most frequent bit string\<close>

text \<open>
  \<^verbatim>\<open>np.bincount\<close> of non-negative integers: entry \<open>v\<close> counts the occurrences of \<open>v\<close>,
  for \<open>v\<close> from 0 to the largest value; an empty array of integers gives an empty array.
\<close>

definition bincount :: "nat list \<Rightarrow> nat list" where
  "bincount xs =
     (case xs of
        [] \<Rightarrow> []
      | x # rest \<Rightarrow> map (\<lambda>v. count_list xs v) [0..<Suc (fold max rest x)])"

text \<open>
  \<^verbatim>\<open>np.argmax\<close>: one scan that keeps the index of the best entry so far and replaces it
  only by a strictly larger entry; an empty array raises ValueError.
\<close>

fun argmax_scan :: "nat list \<Rightarrow> nat \<Rightarrow> nat \<Rightarrow> nat \<Rightarrow> nat" where
  "argmax_scan [] i best bv = best"
| "argmax_scan (c # cs) i best bv =
     (if bv < c then argmax_scan cs (Suc i) i c else argmax_scan cs (Suc i) best bv)"

definition argmax :: "nat list \<Rightarrow> error + nat" where
  "argmax cs = (case cs of [] \<Rightarrow> Inl ValueError | c # rest \<Rightarrow> Inr (argmax_scan rest 1 0 c))"

text \<open>
  \<^verbatim>\<open>counts = np.bincount(np.array(bit_strings)); most_freq_bit_string = np.argmax(counts)\<close>.
  \<^verbatim>\<open>np.array\<close> of an empty list is an array of floats, which \<^verbatim>\<open>np.bincount\<close> refuses with
  TypeError; a non-empty list of integers gives an array of integers.
\<close>

definition most_freq_bit_string :: "nat list \<Rightarrow> error + nat" where
  "most_freq_bit_string bit_strings =
     (if bit_strings = [] then Inl TypeError else argmax (bincount bit_strings))"

subsection \<open>The state vector engine\<close>

text \<open>
  The repository has no simulator of its own: gates, states and measurements are
  PennyLane's. The definitions of this subsection and the next model that part after
  sections 3, 4.1 and 4.2 of the spec, in exact real and complex arithmetic.
\<close>

text \<open>
  Modelled from the spec: the state vector (section 3), one complex amplitude per basis
  state of the register. A basis state is named by its bit sequence, wire 0 first, as
  \<^verbatim>\<open>qml.sample()\<close> returns it; the register starts in the all-zero basis state.
\<close>

type_synonym state = "bool list \<Rightarrow> complex"

definition zero_state :: "nat \<Rightarrow> state" where
  "zero_state n = (\<lambda>bs. if bs = replicate n False then 1 else 0)"

text \<open>
  Modelled from the spec: the basis states of an \<open>n\<close>-wire register in the order of their
  big-endian integer values (section 4.7), which is the order of the state array.
\<close>

fun basis :: "nat \<Rightarrow> bool list list" where
  "basis 0 = [[]]"
| "basis (Suc n) = map ((#) False) (basis n) @ map ((#) True) (basis n)"

text \<open>
  Modelled from the spec: the gate library (section 4.2). A 2x2 matrix is given by its
  rows; \<open>entry U r k\<close> is the entry in row \<open>r\<close> and column \<open>k\<close>. The entries are the
  standard ones of the Hadamard gate and of the rotations \<open>exp (- i theta X / 2)\<close> and
  \<open>exp (- i theta Z / 2)\<close>.
\<close>

datatype mat2 = Mat2 complex complex complex complex

fun entry :: "mat2 \<Rightarrow> bool \<Rightarrow> bool \<Rightarrow> complex" where
  "entry (Mat2 a b c d) r k = (if r then (if k then d else c) else (if k then b else a))"

definition Hadamard_matrix :: mat2 where
  "Hadamard_matrix =
     Mat2 (complex_of_real (1 / sqrt 2)) (complex_of_real (1 / sqrt 2))
          (complex_of_real (1 / sqrt 2)) (complex_of_real (- 1 / sqrt 2))"

definition RX_matrix :: "real \<Rightarrow> mat2" where
  "RX_matrix theta =
     Mat2 (complex_of_real (cos (theta / 2))) (- \<i> * complex_of_real (sin (theta / 2)))
          (- \<i> * complex_of_real (sin (theta / 2))) (complex_of_real (cos (theta / 2)))"

definition RZ_matrix :: "real \<Rightarrow> mat2" where
  "RZ_matrix theta = Mat2 (cis (- theta / 2)) 0 0 (cis (theta / 2))"

text \<open>
  Modelled from the spec: \<^verbatim>\<open>apply_gate\<close> of the state vector engine (section 4.1), the
  action of a matrix on one wire and the identity on the others. The new amplitude of
  \<open>bs\<close> combines the old amplitudes of the two bit sequences that agree with \<open>bs\<close>
  off wire \<open>w\<close>.
\<close>

definition apply_single :: "mat2 \<Rightarrow> nat \<Rightarrow> state \<Rightarrow> state" where
  "apply_single U w psi =
     (\<lambda>bs. entry U (bs ! w) False * psi (bs[w := False])
         + entry U (bs ! w) True * psi (bs[w := True]))"

text \<open>
  Modelled from the spec: the controlled NOT on an ordered (control, target) pair
  (section 4.2): it flips the target bit of the bit sequences whose control bit is set.
\<close>

definition cnot_bits :: "nat \<Rightarrow> nat \<Rightarrow> bool list \<Rightarrow> bool list" where
  "cnot_bits c t bs = (if bs ! c then bs[t := \<not> bs ! t] else bs)"

definition apply_cnot :: "nat \<Rightarrow> nat \<Rightarrow> state \<Rightarrow> state" where
  "apply_cnot c t psi = (\<lambda>bs. psi (cnot_bits c t bs))"

text \<open>
  Modelled from the spec: the DimensionError of \<^verbatim>\<open>apply_gate\<close> (sections 4.1 and 7),
  raised when a wire index is outside the register; a controlled NOT moreover needs two
  different wires.
\<close>

fun op_ok :: "nat \<Rightarrow> op \<Rightarrow> bool" where
  "op_ok n (Hadamard w) = (w < n)"
| "op_ok n (RX theta w) = (w < n)"
| "op_ok n (RZ theta w) = (w < n)"
| "op_ok n (CNOT c t) = (c < n \<and> t < n \<and> c \<noteq> t)"

fun gate_action :: "op \<Rightarrow> state \<Rightarrow> state" where
  "gate_action (Hadamard w) psi = apply_single Hadamard_matrix w psi"
| "gate_action (RX theta w) psi = apply_single (RX_matrix theta) w psi"
| "gate_action (RZ theta w) psi = apply_single (RZ_matrix theta) w psi"
| "gate_action (CNOT c t) psi = apply_cnot c t psi"

definition apply_gate :: "nat \<Rightarrow> op \<Rightarrow> state \<Rightarrow> error + state" where
  "apply_gate n g psi = (if op_ok n g then Inr (gate_action g psi) else Inl DimensionError)"

text \<open>
  Modelled from the spec: "unitary for all real angles" (section 4.2), for a 2x2 matrix:
  the conjugate transpose times the matrix is the identity.
\<close>

definition unitary2 :: "mat2 \<Rightarrow> bool" where
  "unitary2 U = (case U of Mat2 a b c d \<Rightarrow>
     cnj a * a + cnj c * c = 1 \<and> cnj b * b + cnj d * d = 1 \<and> cnj a * b + cnj c * d = 0)"

text \<open>Modelled from the spec: a tape run gate by gate (section 4.3), the first error aborting it.\<close>

fun run_ops :: "nat \<Rightarrow> op list \<Rightarrow> state \<Rightarrow> error + state" where
  "run_ops n [] psi = Inr psi"
| "run_ops n (g # gs) psi =
     (case apply_gate n g psi of Inl e \<Rightarrow> Inl e | Inr psi' \<Rightarrow> run_ops n gs psi')"

text \<open>
  Modelled from the spec: the states reachable from the all-zero state by the four gates
  (section 8); every state between two gates of a run is one of them.
\<close>

inductive reachable :: "nat \<Rightarrow> state \<Rightarrow> bool" for n :: nat where
  initial: "reachable n (zero_state n)"
| gate: "reachable n psi \<Longrightarrow> apply_gate n g psi = Inr psi' \<Longrightarrow> reachable n psi'"

text \<open>Modelled from the spec: the sum of the squared magnitudes of the amplitudes (section 3).\<close>

definition norm2 :: "nat \<Rightarrow> state \<Rightarrow> real" where
  "norm2 n psi = (\<Sum>bs\<leftarrow>basis n. (cmod (psi bs))\<^sup>2)"

text \<open>
  Modelled from the spec: \<^verbatim>\<open>expectation\<close> of the ZZ observable of wires \<open>i\<close> and \<open>j\<close>
  (section 4.1), the sum of the probabilities of the basis states with the sign given by
  the parity of the two bits.
\<close>

definition zz_eigenvalue :: "nat \<Rightarrow> nat \<Rightarrow> bool list \<Rightarrow> real" where
  "zz_eigenvalue i j bs = (if bs ! i = bs ! j then 1 else - 1)"

definition expectation :: "nat \<Rightarrow> state \<Rightarrow> nat \<Rightarrow> nat \<Rightarrow> real" where
  "expectation n psi i j = (\<Sum>bs\<leftarrow>basis n. (cmod (psi bs))\<^sup>2 * zz_eigenvalue i j bs)"

text \<open>
  Modelled from the spec: \<^verbatim>\<open>measure_sample\<close> (section 4.1), one outcome drawn from the
  probabilities of the basis states with a single uniform draw \<open>u\<close> from \<open>[0, 1)\<close>: the
  first basis state at which the running sum of the probabilities exceeds \<open>u\<close>.
\<close>

fun pick :: "state \<Rightarrow> bool list list \<Rightarrow> real \<Rightarrow> bool list" where
  "pick psi [] u = []"
| "pick psi [b] u = b"
| "pick psi (b # b' # rest) u =
     (if u < (cmod (psi b))\<^sup>2 then b else pick psi (b' # rest) (u - (cmod (psi b))\<^sup>2))"

definition measure_sample :: "nat \<Rightarrow> state \<Rightarrow> real \<Rightarrow> bool list" where
  "measure_sample n psi u = pick psi (basis n) u"

subsection \<open>Executing a tape on a device\<close>

text \<open>
  A call of a QNode queues the tape and executes it on the device of the decorator. The
  random source of the process is explicit: a stream of uniform draws, of which every
  shot consumes one. What a call returns is the array of sampled bit sequences (one per
  shot) or a number.
\<close>

datatype result = Samples "bool list list" | Expectation real

text \<open>
  Modelled from the spec: the shots of one execution, each a \<^verbatim>\<open>measure_sample\<close> of the
  final state with the next draw of the random source (sections 4.1 and 4.7).
\<close>

fun take_shots :: "nat \<Rightarrow> nat \<Rightarrow> state \<Rightarrow> real stream \<Rightarrow> bool list list \<times> real stream" where
  "take_shots 0 n psi rng = ([], rng)"
| "take_shots (Suc k) n psi rng =
     (let (rest, rng') = take_shots k n psi (stl rng)
      in (measure_sample n psi (shd rng) # rest, rng'))"

text \<open>
  Modelled from the spec: the execution of a tape (section 4.3, steps 1 and 4) on a
  device. The register starts in the all-zero state and the gates are applied in order.
  The spec has an exact expectation and a sampling path; which of the two a measurement
  takes is decided by the shots of the device, as PennyLane documents it for
  \<^verbatim>\<open>qml.device(..., shots=...)\<close>: a device without shots computes the expectation exactly
  and cannot sample; a device with \<open>k\<close> shots estimates every measurement,
  \<^verbatim>\<open>qml.expval\<close> included, from \<open>k\<close> sampled bit sequences, so its expectation of ZZ is the
  mean of the eigenvalues of the samples.
\<close>

definition device_state :: "device \<Rightarrow> op list \<Rightarrow> error + state" where
  "device_state d tape = run_ops (dev_wires d) tape (zero_state (dev_wires d))"

definition execute ::
  "device \<Rightarrow> real stream \<Rightarrow> op list \<times> measurement \<Rightarrow> error + (result \<times> real stream)" where
  "execute d rng qtape =
     (case device_state d (fst qtape) of
        Inl e \<Rightarrow> Inl e
      | Inr psi \<Rightarrow>
          (case snd qtape of
             Sample \<Rightarrow>
               (case dev_shots d of
                  None \<Rightarrow> Inl DeviceError
                | Some k \<Rightarrow>
                    (let (bss, rng') = take_shots k (dev_wires d) psi rng
                     in Inr (Samples bss, rng')))
           | Expval i j \<Rightarrow>
               if i < dev_wires d \<and> j < dev_wires d then
                 (case dev_shots d of
                    None \<Rightarrow> Inr (Expectation (expectation (dev_wires d) psi i j), rng)
                  | Some k \<Rightarrow>
                      (let (bss, rng') = take_shots k (dev_wires d) psi rng
                       in Inr (Expectation ((\<Sum>bs\<leftarrow>bss. zz_eigenvalue i j bs) / real k), rng')))
               else Inl DimensionError))"

subsection \<open>main.py: the QNode \<^verbatim>\<open>circuit\<close> and the objective\<close>

text \<open>\<^verbatim>\<open>dev = qml.device("lightning.qubit", wires=n_wires, shots=1)\<close>\<close>

definition dev :: device where
  "dev = \<lparr>dev_wires = n_wires, dev_shots = Some 1\<rparr>"

text \<open>
  \<^verbatim>\<open>circuit\<close> as the program calls it: the decorated function, executed on \<^verbatim>\<open>dev\<close>
  with the random source of the process, which it returns advanced.
\<close>

definition circuit ::
  "real stream \<Rightarrow> real list \<Rightarrow> real list \<Rightarrow> edge option \<Rightarrow> nat
     \<Rightarrow> error + (result \<times> real stream)" where
  "circuit rng gammas betas edge n_layers =
     (case circuit_func gammas betas edge n_layers of
        Inl e \<Rightarrow> Inl e
      | Inr qtape \<Rightarrow> execute dev rng qtape)"

text \<open>
  The loop of \<^verbatim>\<open>objective\<close>:
  \<^verbatim>\<open>neg_obj -= 0.5 * (1 - circuit(gammas, betas, edge=edge, n_layers=n_layers))\<close>
  for every edge of the graph. The call always passes an edge, so what comes back is a
  number; the branch for a sample array only makes the case distinction total.
\<close>

fun objective_loop ::
  "nat \<Rightarrow> real list \<Rightarrow> real list \<Rightarrow> edge list \<Rightarrow> real \<Rightarrow> real stream
     \<Rightarrow> error + (real \<times> real stream)" where
  "objective_loop n_layers gammas betas [] neg_obj rng = Inr (neg_obj, rng)"
| "objective_loop n_layers gammas betas (edge # rest) neg_obj rng =
     (case circuit rng gammas betas (Some edge) n_layers of
        Inl e \<Rightarrow> Inl e
      | Inr (Expectation v, rng') \<Rightarrow>
          objective_loop n_layers gammas betas rest (neg_obj - 0.5 * (1 - v)) rng'
      | Inr (Samples bss, rng') \<Rightarrow> Inl TypeError)"

text \<open>
  \<^verbatim>\<open>objective(params)\<close>, the closure of \<^verbatim>\<open>qaoa_maxcut(n_layers)\<close>; \<^verbatim>\<open>params\<close> is the
  array of the two rows \<^verbatim>\<open>gammas\<close> and \<^verbatim>\<open>betas\<close>.
\<close>

definition objective ::
  "nat \<Rightarrow> real stream \<Rightarrow> real list list \<Rightarrow> error + (real \<times> real stream)" where
  "objective n_layers rng params =
     (case getitem params 0 of
        Inl e \<Rightarrow> Inl e
      | Inr gammas \<Rightarrow>
          (case getitem params 1 of
             Inl e \<Rightarrow> Inl e
           | Inr betas \<Rightarrow> objective_loop n_layers gammas betas graph_edges 0 rng))"

text \<open>
  The cost as the spec words it (section 4.5), for comparison with \<^verbatim>\<open>objective\<close>:
  \<open>- 0.5\<close> times the sum over the edges of one minus the exact expectation (section 4.1)
  of the ZZ observable of the edge in the final state of the circuit.
\<close>

definition spec_cost :: "nat \<Rightarrow> real list list \<Rightarrow> error + real" where
  "spec_cost n_layers params =
     (case getitem params 0 of
        Inl e \<Rightarrow> Inl e
      | Inr gammas \<Rightarrow>
          (case getitem params 1 of
             Inl e \<Rightarrow> Inl e
           | Inr betas \<Rightarrow>
               (case circuit_func gammas betas None n_layers of
                  Inl e \<Rightarrow> Inl e
                | Inr qtape \<Rightarrow>
                    (case device_state dev (fst qtape) of
                       Inl e \<Rightarrow> Inl e
                     | Inr psi \<Rightarrow>
                         Inr (- 0.5 * (\<Sum>edge\<leftarrow>graph_edges.
                                1 - expectation n_wires psi (fst edge) (snd edge)))))))"

section \<open>Properties of the tapes\<close>

lemma fold_queue: "fold (\<lambda>x t. t @ f x) xs tape = tape @ concat (map f xs)"
  by (induction xs arbitrary: tape) simp_all

lemma U_B_tape: "U_B beta tape = tape @ map (RX (2 * beta)) [0..<n_wires]"
proof -
  have "U_B beta tape = tape @ concat (map (\<lambda>wire. [RX (2 * beta) wire]) [0..<n_wires])"
    unfolding U_B_def by (rule fold_queue)
  also have "concat (map (\<lambda>wire. [RX (2 * beta) wire]) [0..<n_wires])
      = map (RX (2 * beta)) [0..<n_wires]"
    by (induction n_wires) simp_all
  finally show ?thesis .
qed

lemma U_C_tape:
  "U_C gamma tape = tape @ concat (map (\<lambda>(i, j). [CNOT i j, RZ gamma j, CNOT i j]) graph_edges)"
proof -
  have "U_C gamma tape
      = tape @ concat (map (\<lambda>edge. [CNOT (fst edge) (snd edge), RZ gamma (snd edge),
                                      CNOT (fst edge) (snd edge)]) graph_edges)"
    unfolding U_C_def Let_def by (rule fold_queue)
  also have "(\<lambda>edge. [CNOT (fst edge) (snd edge), RZ gamma (snd edge), CNOT (fst edge) (snd edge)])
      = (\<lambda>(i, j). [CNOT i j, RZ gamma j, CNOT i j])"
    by (simp add: fun_eq_iff)
  finally show ?thesis .
qed

lemma circuit_layers_tape:
  assumes "\<forall>i \<in> set ls. i < length gammas \<and> i < length betas"
  shows "circuit_layers gammas betas ls tape
    = Inr (tape @ concat (map (\<lambda>l.
         concat (map (\<lambda>(i, j). [CNOT i j, RZ (gammas ! l) j, CNOT i j]) graph_edges)
         @ map (RX (2 * betas ! l)) [0..<n_wires]) ls))"
  using assms
proof (induction ls arbitrary: tape)
  case Nil
  show ?case by simp
next
  case (Cons l ls)
  have l: "getitem gammas l = Inr (gammas ! l)" "getitem betas l = Inr (betas ! l)"
    using Cons.prems by (simp_all add: getitem_def)
  have rest: "\<forall>i \<in> set ls. i < length gammas \<and> i < length betas"
    using Cons.prems by simp
  show ?case
    by (simp add: l Cons.IH [OF rest] U_B_tape U_C_tape)
qed

lemma hadamard_layer:
  "fold (\<lambda>wire t. t @ [Hadamard wire]) [0..<n] [] = map Hadamard [0..<n]"
proof -
  have "fold (\<lambda>wire t. t @ [Hadamard wire]) [0..<n] []
      = [] @ concat (map (\<lambda>wire. [Hadamard wire]) [0..<n])"
    by (rule fold_queue)
  also have "concat (map (\<lambda>wire. [Hadamard wire]) [0..<n]) = map Hadamard [0..<n]"
    by (induction n) simp_all
  finally show ?thesis by simp
qed

lemma cost_unitary_tape:
  assumes "layer < length params" and "\<forall>e \<in> set es. fst e \<noteq> snd e"
  shows "cost_unitary params layer es tape
    = Inr (tape @ concat (map (\<lambda>(i, j). [CNOT i j, RZ (- 2 * params ! layer) j, CNOT i j]) es))"
  using assms(2)
proof (induction es arbitrary: tape)
  case Nil
  show ?case by simp
next
  case (Cons e es)
  obtain i j where e: "e = (i, j)" by (cases e)
  have ij: "i \<noteq> j" and rest: "\<forall>e \<in> set es. fst e \<noteq> snd e"
    using Cons.prems by (simp_all add: e)
  show ?case
    using assms(1) ij by (simp add: e Cons.IH [OF rest] getitem_def)
qed

lemma mixer_unitary_tape:
  assumes "k < length params"
  shows "mixer_unitary params k ws tape = Inr (tape @ map (RX (2 * params ! k)) ws)"
  using assms by (induction ws arbitrary: tape) (simp_all add: getitem_def)

lemma qaoa_layers_tape:
  assumes "\<forall>l \<in> set ls. l < length params \<and> p + l < length params"
    and loops: "\<forall>e \<in> set edges. fst e \<noteq> snd e"
  shows "qaoa_layers params edges p nq ls tape
    = Inr (tape @ concat (map (\<lambda>l.
         concat (map (\<lambda>(i, j). [CNOT i j, RZ (- 2 * params ! l) j, CNOT i j]) edges)
         @ map (RX (2 * params ! (p + l))) [0..<nq]) ls))"
  using assms(1)
proof (induction ls arbitrary: tape)
  case Nil
  show ?case by simp
next
  case (Cons l ls)
  have l: "l < length params" "p + l < length params"
    using Cons.prems by simp_all
  have rest: "\<forall>l \<in> set ls. l < length params \<and> p + l < length params"
    using Cons.prems by simp
  show ?case
    by (simp add: cost_unitary_tape [OF l(1) loops] mixer_unitary_tape [OF l(2)] Cons.IH [OF rest])
qed

lemma fold_max_Max: "fold max xs (x::nat) = Max (insert x (set xs))"
proof (induction xs arbitrary: x)
  case Nil
  show ?case by simp
next
  case (Cons y ys)
  have "Max (insert (max y x) (set ys)) = Max (insert x (insert y (set ys)))"
  proof (cases "set ys = {}")
    case True
    then show ?thesis by (simp add: max.commute)
  next
    case False
    then show ?thesis by (simp add: max.assoc max.left_commute max.commute)
  qed
  then show ?case by (simp add: Cons.IH)
qed

lemma num_qubits_Max:
  assumes "edges \<noteq> []"
  shows "num_qubits edges = Inr (Suc (Max (fst ` set edges \<union> snd ` set edges)))"
proof -
  obtain e es where edges: "edges = e # es"
    using assms by (cases edges) auto
  let ?m = "\<lambda>edge::edge. max (fst edge) (snd edge)"
  have fin: "finite (fst ` set edges)" "finite (snd ` set edges)" by simp_all
  have ne: "fst ` set edges \<noteq> {}" "snd ` set edges \<noteq> {}" using assms by simp_all
  have "Max (?m ` set edges) = Max (fst ` set edges \<union> snd ` set edges)"
  proof (rule antisym)
    show "Max (?m ` set edges) \<le> Max (fst ` set edges \<union> snd ` set edges)"
    proof (rule Max.boundedI)
      show "finite (?m ` set edges)" by simp
      show "?m ` set edges \<noteq> {}" using assms by simp
      fix a assume "a \<in> ?m ` set edges"
      then obtain ed where ed: "ed \<in> set edges" "a = ?m ed" by auto
      then have "a \<in> fst ` set edges \<union> snd ` set edges"
        by (cases "fst ed \<le> snd ed") (auto simp: max_def)
      then show "a \<le> Max (fst ` set edges \<union> snd ` set edges)"
        using fin by (intro Max_ge) auto
    qed
    show "Max (fst ` set edges \<union> snd ` set edges) \<le> Max (?m ` set edges)"
    proof (rule Max.boundedI)
      show "finite (fst ` set edges \<union> snd ` set edges)" by simp
      show "fst ` set edges \<union> snd ` set edges \<noteq> {}" using ne by simp
      fix a assume "a \<in> fst ` set edges \<union> snd ` set edges"
      then obtain ed where ed: "ed \<in> set edges" "a = fst ed \<or> a = snd ed" by auto
      have "?m ed \<le> Max (?m ` set edges)"
        using ed(1) by (intro Max_ge) auto
      then show "a \<le> Max (?m ` set edges)"
        using ed(2) by (auto simp: max_def split: if_splits)
    qed
  qed
  moreover have "fold max (map ?m es) (?m e) = Max (?m ` set edges)"
    by (simp add: fold_max_Max edges)
  ultimately show ?thesis
    by (simp add: num_qubits_def py_max_def edges)
qed


section \<open>Properties of the state vector engine\<close>

lemma set_basis: "set (basis n) = {bs. length bs = n}"
proof (induction n)
  case 0
  show ?case by simp
next
  case (Suc n)
  show ?case
  proof (rule set_eqI)
    fix bs :: "bool list"
    show "bs \<in> set (basis (Suc n)) \<longleftrightarrow> bs \<in> {bs. length bs = Suc n}"
    proof (cases bs)
      case Nil
      then show ?thesis by auto
    next
      case (Cons b rest)
      then show ?thesis using Suc.IH by (cases b) auto
    qed
  qed
qed

lemma distinct_basis: "distinct (basis n)"
  by (induction n) (auto simp: distinct_map)

lemma sum_basis: "(\<Sum>bs\<leftarrow>basis n. f bs) = sum f {bs. length bs = n}"
  by (simp add: sum_list_distinct_conv_sum_set distinct_basis set_basis)

lemma finite_basis: "finite {bs :: bool list. length bs = n}"
proof -
  have "{bs :: bool list. length bs = n} = set (basis n)"
    by (simp add: set_basis)
  then show ?thesis
    by (simp only: finite_set)
qed

lemma sum_split_wire:
  fixes f :: "bool list \<Rightarrow> 'a::comm_monoid_add"
  assumes "w < n"
  shows "sum f {bs. length bs = n}
    = (\<Sum>bs | length bs = n \<and> \<not> bs ! w. f bs + f (bs[w := True]))"
proof -
  let ?A0 = "{bs :: bool list. length bs = n \<and> \<not> bs ! w}"
  let ?A1 = "{bs :: bool list. length bs = n \<and> bs ! w}"
  have fin: "finite ?A0" "finite ?A1"
    using finite_basis [of n] by (auto intro: finite_subset)
  have un: "{bs :: bool list. length bs = n} = ?A0 \<union> ?A1" by auto
  have dj: "?A0 \<inter> ?A1 = {}" by auto
  have inj: "inj_on (\<lambda>bs. bs[w := True]) ?A0"
  proof (rule inj_onI)
    fix xs ys :: "bool list"
    assume xs: "xs \<in> ?A0" and ys: "ys \<in> ?A0" and eq: "xs[w := True] = ys[w := True]"
    have "xs[w := True, w := False] = ys[w := True, w := False]" using eq by simp
    moreover have "xs[w := False] = xs" "ys[w := False] = ys"
      using xs ys by (simp_all add: list_update_same_conv assms)
    ultimately show "xs = ys" by simp
  qed
  have img: "(\<lambda>bs. bs[w := True]) ` ?A0 = ?A1"
  proof (rule set_eqI)
    fix ys :: "bool list"
    show "ys \<in> (\<lambda>bs. bs[w := True]) ` ?A0 \<longleftrightarrow> ys \<in> ?A1"
    proof
      assume "ys \<in> (\<lambda>bs. bs[w := True]) ` ?A0"
      then show "ys \<in> ?A1" using assms by auto
    next
      assume ys: "ys \<in> ?A1"
      then have "ys[w := False] \<in> ?A0" using assms by simp
      moreover have "ys[w := False, w := True] = ys"
        using ys assms by (simp add: list_update_same_conv)
      ultimately show "ys \<in> (\<lambda>bs. bs[w := True]) ` ?A0"
        by (metis (no_types, lifting) image_eqI)
    qed
  qed
  have "sum f {bs. length bs = n} = sum f ?A0 + sum f ?A1"
    by (subst un) (rule sum.union_disjoint [OF fin dj])
  also have "sum f ?A1 = sum (f \<circ> (\<lambda>bs. bs[w := True])) ?A0"
    using sum.reindex [OF inj, of f] by (simp add: img)
  finally show ?thesis
    by (simp add: sum.distrib)
qed

lemma unitary2_preserves:
  assumes "unitary2 (Mat2 a b c d)"
  shows "(cmod (a * x + b * y))\<^sup>2 + (cmod (c * x + d * y))\<^sup>2 = (cmod x)\<^sup>2 + (cmod y)\<^sup>2"
proof -
  have u: "cnj a * a + cnj c * c = 1" "cnj b * b + cnj d * d = 1" "cnj a * b + cnj c * d = 0"
    using assms by (simp_all add: unitary2_def)
  have u': "a * cnj b + c * cnj d = 0"
  proof -
    have "cnj (cnj a * b + cnj c * d) = 0" using u(3) by simp
    then show ?thesis by simp
  qed
  have "(a * x + b * y) * cnj (a * x + b * y) + (c * x + d * y) * cnj (c * x + d * y)
      = (cnj a * a + cnj c * c) * (x * cnj x) + (cnj b * b + cnj d * d) * (y * cnj y)
        + (cnj a * b + cnj c * d) * (cnj x * y) + (a * cnj b + c * cnj d) * (x * cnj y)"
    by (simp add: algebra_simps)
  also have "\<dots> = x * cnj x + y * cnj y"
    by (simp add: u u')
  finally have "complex_of_real ((cmod (a * x + b * y))\<^sup>2 + (cmod (c * x + d * y))\<^sup>2)
      = complex_of_real ((cmod x)\<^sup>2 + (cmod y)\<^sup>2)"
    by (simp only: of_real_add complex_norm_square)
  then show ?thesis
    by (simp only: of_real_eq_iff)
qed

lemma norm2_sum: "norm2 n psi = (\<Sum>bs | length bs = n. (cmod (psi bs))\<^sup>2)"
  by (simp add: norm2_def sum_basis)

lemma norm2_apply_single:
  assumes U: "unitary2 U" and w: "w < n"
  shows "norm2 n (apply_single U w psi) = norm2 n psi"
proof -
  obtain a b c d where Ueq: "U = Mat2 a b c d" by (cases U)
  let ?f = "\<lambda>bs. (cmod (apply_single U w psi bs))\<^sup>2"
  let ?g = "\<lambda>bs. (cmod (psi bs))\<^sup>2"
  have "?f bs + ?f (bs[w := True]) = ?g bs + ?g (bs[w := True])"
    if bs: "length bs = n \<and> \<not> bs ! w" for bs
  proof -
    have same: "bs[w := False] = bs"
      using bs w by (simp add: list_update_same_conv)
    have "?f bs = (cmod (a * psi bs + b * psi (bs[w := True])))\<^sup>2"
      using bs by (simp add: apply_single_def Ueq same)
    moreover have "?f (bs[w := True]) = (cmod (c * psi bs + d * psi (bs[w := True])))\<^sup>2"
      using bs w by (simp add: apply_single_def Ueq same)
    ultimately show ?thesis
      using unitary2_preserves [OF U [unfolded Ueq], of "psi bs" "psi (bs[w := True])"]
      by simp
  qed
  then have "(\<Sum>bs | length bs = n \<and> \<not> bs ! w. ?f bs + ?f (bs[w := True]))
      = (\<Sum>bs | length bs = n \<and> \<not> bs ! w. ?g bs + ?g (bs[w := True]))"
    by (intro sum.cong) auto
  then show ?thesis
    by (simp only: norm2_sum sum_split_wire [OF w])
qed

lemma cnot_bits_involution:
  assumes "c \<noteq> t"
  shows "cnot_bits c t (cnot_bits c t bs) = bs"
proof (cases "bs ! c")
  case False
  then show ?thesis by (simp add: cnot_bits_def)
next
  case True
  have c': "bs[t := \<not> bs ! t] ! c = bs ! c"
    using assms by simp
  show ?thesis
  proof (cases "t < length bs")
    case True
    with \<open>bs ! c\<close> c' show ?thesis
      by (simp add: cnot_bits_def list_update_same_conv)
  next
    case False
    with \<open>bs ! c\<close> show ?thesis
      by (simp add: cnot_bits_def list_update_beyond)
  qed
qed

lemma length_cnot_bits: "length (cnot_bits c t bs) = length bs"
  by (simp add: cnot_bits_def)

lemma sum_cnot_bits:
  fixes f :: "bool list \<Rightarrow> 'a::comm_monoid_add"
  assumes "c \<noteq> t"
  shows "(\<Sum>bs | length bs = n. f (cnot_bits c t bs)) = (\<Sum>bs | length bs = n. f bs)"
  by (rule sum.reindex_bij_witness [where i = "cnot_bits c t" and j = "cnot_bits c t"])
     (simp_all add: cnot_bits_involution [OF assms] length_cnot_bits)

lemma norm2_apply_cnot:
  assumes "c \<noteq> t"
  shows "norm2 n (apply_cnot c t psi) = norm2 n psi"
  unfolding norm2_sum apply_cnot_def
  by (rule sum_cnot_bits [OF assms])

lemma norm2_zero_state: "norm2 n (zero_state n) = 1"
proof -
  have "norm2 n (zero_state n)
      = (\<Sum>bs | length bs = n. if bs = replicate n False then 1 else 0)"
    unfolding norm2_sum zero_state_def by (intro sum.cong) auto
  also have "\<dots> = 1"
    using finite_basis [of n] by (simp add: sum.delta')
  finally show ?thesis .
qed

lemma unitary2_Hadamard: "unitary2 Hadamard_matrix"
proof -
  have "(1 / sqrt 2) * (1 / sqrt 2) + (1 / sqrt 2) * (1 / sqrt 2) = (1::real)"
    by simp
  then have "complex_of_real (1 / sqrt 2) * complex_of_real (1 / sqrt 2)
      + complex_of_real (1 / sqrt 2) * complex_of_real (1 / sqrt 2) = 1"
    by (metis of_real_add of_real_mult of_real_1)
  then show ?thesis
    by (simp add: unitary2_def Hadamard_matrix_def)
qed

lemma unitary2_RX: "unitary2 (RX_matrix theta)"
proof -
  have "complex_of_real (cos (theta / 2)) * complex_of_real (cos (theta / 2))
      + complex_of_real (sin (theta / 2)) * complex_of_real (sin (theta / 2)) = 1"
    using sin_cos_squared_add2 [of "theta / 2"]
    by (metis of_real_add of_real_mult of_real_1 power2_eq_square)
  then show ?thesis
    by (simp add: unitary2_def RX_matrix_def algebra_simps)
qed

lemma unitary2_RZ: "unitary2 (RZ_matrix theta)"
proof -
  have "cnj (cis x) * cis x = 1" for x
    by (simp add: cis_cnj cis_mult)
  then show ?thesis
    by (simp add: unitary2_def RZ_matrix_def)
qed

lemma apply_gate_norm2:
  assumes "apply_gate n g psi = Inr psi'"
  shows "norm2 n psi' = norm2 n psi"
proof -
  have ok: "op_ok n g" and psi': "psi' = gate_action g psi"
    using assms by (auto simp: apply_gate_def split: if_splits)
  show ?thesis
  proof (cases g)
    case (Hadamard w)
    with ok psi' show ?thesis by (simp add: norm2_apply_single unitary2_Hadamard)
  next
    case (RX theta w)
    with ok psi' show ?thesis by (simp add: norm2_apply_single unitary2_RX)
  next
    case (RZ theta w)
    with ok psi' show ?thesis by (simp add: norm2_apply_single unitary2_RZ)
  next
    case (CNOT c t)
    with ok psi' show ?thesis by (simp add: norm2_apply_cnot)
  qed
qed


lemma run_ops_append:
  "run_ops n (xs @ ys) psi
    = (case run_ops n xs psi of Inl e \<Rightarrow> Inl e | Inr psi' \<Rightarrow> run_ops n ys psi')"
  by (induction xs arbitrary: psi) (simp_all split: sum.split)

lemma run_ops_reachable:
  assumes "reachable n psi" and "run_ops n gs psi = Inr psi'"
  shows "reachable n psi'"
  using assms
proof (induction gs arbitrary: psi)
  case Nil
  then show ?case by simp
next
  case (Cons g gs)
  then obtain psi1 where g: "apply_gate n g psi = Inr psi1" and rest: "run_ops n gs psi1 = Inr psi'"
    by (auto split: sum.splits)
  have "reachable n psi1"
    using Cons.prems(1) g by (rule reachable.gate)
  then show ?case
    using rest by (rule Cons.IH)
qed

lemma RZ_matrix_zero: "RZ_matrix 0 = Mat2 1 0 0 1"
  by (simp add: RZ_matrix_def)

lemma RX_matrix_zero: "RX_matrix 0 = Mat2 1 0 0 1"
  by (simp add: RX_matrix_def)

lemma apply_single_identity: "apply_single (Mat2 1 0 0 1) w psi = psi"
proof (rule ext)
  fix bs :: "bool list"
  have "bs[w := bs ! w] = bs" by (rule list_update_id)
  then show "apply_single (Mat2 1 0 0 1) w psi bs = psi bs"
    by (cases "bs ! w") (simp_all add: apply_single_def)
qed

lemma apply_cnot_twice:
  assumes "c \<noteq> t"
  shows "apply_cnot c t (apply_cnot c t psi) = psi"
  by (simp add: apply_cnot_def cnot_bits_involution [OF assms])

lemma zero_state_bits:
  "zero_state n = (\<lambda>bs. if length bs = n \<and> (\<forall>i. i < n \<longrightarrow> \<not> bs ! i) then 1 else 0)"
proof (rule ext)
  fix bs :: "bool list"
  have "bs = replicate n False \<longleftrightarrow> length bs = n \<and> (\<forall>i. i < n \<longrightarrow> \<not> bs ! i)"
    by (auto simp: list_eq_iff_nth_eq)
  then show "zero_state n bs = (if length bs = n \<and> (\<forall>i. i < n \<longrightarrow> \<not> bs ! i) then 1 else 0)"
    by (simp add: zero_state_def)
qed

lemma hadamard_step:
  assumes "k < n"
  shows "apply_single Hadamard_matrix k
      (\<lambda>bs. if length bs = n \<and> (\<forall>i. k \<le> i \<and> i < n \<longrightarrow> \<not> bs ! i)
             then complex_of_real ((1 / sqrt 2) ^ k) else 0)
    = (\<lambda>bs. if length bs = n \<and> (\<forall>i. Suc k \<le> i \<and> i < n \<longrightarrow> \<not> bs ! i)
             then complex_of_real ((1 / sqrt 2) ^ Suc k) else 0)"
proof (rule ext)
  fix bs :: "bool list"
  let ?psi = "\<lambda>bs. if length bs = n \<and> (\<forall>i. k \<le> i \<and> i < n \<longrightarrow> \<not> bs ! i)
             then complex_of_real ((1 / sqrt 2) ^ k) else 0"
  show "apply_single Hadamard_matrix k ?psi bs
    = (if length bs = n \<and> (\<forall>i. Suc k \<le> i \<and> i < n \<longrightarrow> \<not> bs ! i)
             then complex_of_real ((1 / sqrt 2) ^ Suc k) else 0)"
  proof (cases "length bs = n")
    case False
    then show ?thesis by (simp add: apply_single_def)
  next
    case True
    have t: "?psi (bs[k := True]) = 0"
      using True assms by auto
    have "(\<forall>i. k \<le> i \<and> i < n \<longrightarrow> \<not> bs[k := False] ! i)
        \<longleftrightarrow> (\<forall>i. Suc k \<le> i \<and> i < n \<longrightarrow> \<not> bs ! i)"
      using True assms
      by (metis Suc_leD Suc_le_eq le_neq_implies_less nth_list_update_eq
          nth_list_update_neq order_less_irrefl)
    then have f: "?psi (bs[k := False])
        = (if \<forall>i. Suc k \<le> i \<and> i < n \<longrightarrow> \<not> bs ! i then complex_of_real ((1 / sqrt 2) ^ k) else 0)"
      using True by simp
    have e: "entry Hadamard_matrix (bs ! k) False = complex_of_real (1 / sqrt 2)"
      by (simp add: Hadamard_matrix_def)
    show ?thesis
      unfolding apply_single_def t f e using True by simp
  qed
qed

lemma hadamard_prefix:
  assumes "k \<le> n"
  shows "run_ops n (map Hadamard [0..<k]) (zero_state n)
    = Inr (\<lambda>bs. if length bs = n \<and> (\<forall>i. k \<le> i \<and> i < n \<longrightarrow> \<not> bs ! i)
                 then complex_of_real ((1 / sqrt 2) ^ k) else 0)"
  using assms
proof (induction k)
  case 0
  show ?case by (simp add: zero_state_bits cong: if_cong)
next
  case (Suc k)
  then have k: "k < n" by simp
  show ?case
    using Suc.IH k
    by (simp add: run_ops_append apply_gate_def hadamard_step [OF k] del: power_Suc)
qed

lemma hadamard_all:
  "run_ops n (map Hadamard [0..<n]) (zero_state n)
    = Inr (\<lambda>bs. if length bs = n then complex_of_real ((1 / sqrt 2) ^ n) else 0)"
proof -
  have "(\<lambda>bs :: bool list. if length bs = n \<and> (\<forall>i. n \<le> i \<and> i < n \<longrightarrow> \<not> bs ! i)
                 then complex_of_real ((1 / sqrt 2) ^ n) else 0)
      = (\<lambda>bs. if length bs = n then complex_of_real ((1 / sqrt 2) ^ n) else 0)"
    by (rule ext) auto
  with hadamard_prefix [of n n] show ?thesis
    by (simp only: order_refl)
qed

section \<open>Tapes that a register can run\<close>

lemma run_ops_ok:
  assumes "\<forall>g \<in> set gs. op_ok n g"
  shows "\<exists>psi'. run_ops n gs psi = Inr psi'"
  using assms by (induction gs arbitrary: psi) (simp_all add: apply_gate_def)

lemma layered_tape_ok:
  assumes "\<forall>e \<in> set es. fst e < n \<and> snd e < n \<and> fst e \<noteq> snd e"
    and "g \<in> set (map Hadamard [0..<n]
      @ concat (map (\<lambda>l.
          concat (map (\<lambda>(i, j). [CNOT i j, RZ (a l) j, CNOT i j]) es)
          @ map (RX (b l)) [0..<n]) ls))"
  shows "op_ok n g"
  using assms by (auto simp: split_def)

lemma main_tape_ok:
  assumes "g \<in> set (map Hadamard [0..<n_wires]
      @ concat (map (\<lambda>l.
          concat (map (\<lambda>(i, j). [CNOT i j, RZ (a l) j, CNOT i j]) graph_edges)
          @ map (RX (b l)) [0..<n_wires]) ls))"
  shows "op_ok n_wires g"
proof (rule layered_tape_ok [OF _ assms])
  show "\<forall>e \<in> set graph_edges. fst e < n_wires \<and> snd e < n_wires \<and> fst e \<noteq> snd e"
    by (simp add: graph_edges_def n_wires_def)
qed

lemma num_qubits_graph: "num_qubits graph_edges = Inr n_wires"
  by (simp add: num_qubits_def py_max_def graph_edges_def n_wires_def)

lemma graph_no_loops: "\<forall>e \<in> set graph_edges. fst e \<noteq> snd e"
  by (simp add: graph_edges_def)

section \<open>The claims on the tapes\<close>

subsection \<open>C3: the gate sequence of the circuit\<close>

text \<open>
  C3. The circuit applies exactly this gate sequence to the all-zero state: a Hadamard on
  every wire; then, for each layer \<open>l\<close> from 0 to \<open>p - 1\<close>, for every edge \<open>(i, j)\<close> the
  triple CNOT(i, j), RZ on wire \<open>j\<close>, CNOT(i, j), followed by an RX on every wire. In
  \<^verbatim>\<open>main.py\<close> the RZ angle is \<^verbatim>\<open>gammas[l]\<close> and the RX angle \<^verbatim>\<open>2 * betas[l]\<close>, that is
  entries \<open>l\<close> and \<open>p + l\<close> of the parameter array read row by row; in \<^verbatim>\<open>test.py\<close>, for a
  non-empty edge list whose edges join different vertices, they are \<^verbatim>\<open>-2 * params[l]\<close>
  and \<^verbatim>\<open>2 * params[p + l]\<close>. In both variants the device runs the whole sequence from the
  all-zero state of its register without an error.
\<close>

theorem gate_sequence:
  "(n_layers \<le> length gammas \<and> n_layers \<le> length betas \<longrightarrow>
      (\<exists>seq m psi.
          seq = map Hadamard [0..<n_wires]
              @ concat (map (\<lambda>l.
                  concat (map (\<lambda>(i, j). [CNOT i j, RZ (gammas ! l) j, CNOT i j]) graph_edges)
                  @ map (RX (2 * betas ! l)) [0..<n_wires]) [0..<n_layers])
        \<and> circuit_func gammas betas edge n_layers = Inr (seq, m)
        \<and> run_ops n_wires seq (zero_state n_wires) = Inr psi
        \<and> device_state dev seq = Inr psi))
   \<and> (edges \<noteq> [] \<and> (\<forall>e \<in> set edges. fst e \<noteq> snd e) \<and> 2 * p \<le> length params \<longrightarrow>
      (\<exists>nq seq ms d psi.
          num_qubits edges = Inr nq
        \<and> seq = map Hadamard [0..<nq]
            @ concat (map (\<lambda>l.
                concat (map (\<lambda>(i, j). [CNOT i j, RZ (- 2 * params ! l) j, CNOT i j]) edges)
                @ map (RX (2 * params ! (p + l))) [0..<nq]) [0..<p])
        \<and> qaoa_circuit params edges p = Inr (seq, ms)
        \<and> optimize_qaoa_dev edges = Inr d
        \<and> run_ops nq seq (zero_state nq) = Inr psi
        \<and> device_state d seq = Inr psi))"
proof (intro conjI impI)
  assume a: "n_layers \<le> length gammas \<and> n_layers \<le> length betas"
  let ?seq = "map Hadamard [0..<n_wires]
              @ concat (map (\<lambda>l.
                  concat (map (\<lambda>(i, j). [CNOT i j, RZ (gammas ! l) j, CNOT i j]) graph_edges)
                  @ map (RX (2 * betas ! l)) [0..<n_wires]) [0..<n_layers])"
  have "\<forall>i \<in> set [0..<n_layers]. i < length gammas \<and> i < length betas"
    using a by auto
  then have "\<exists>m. circuit_func gammas betas edge n_layers = Inr (?seq, m)"
    by (cases edge) (simp_all add: circuit_func_def circuit_layers_tape hadamard_layer)
  then obtain m where f: "circuit_func gammas betas edge n_layers = Inr (?seq, m)" ..
  have "\<forall>g \<in> set ?seq. op_ok n_wires g"
  proof
    fix g assume "g \<in> set ?seq"
    then show "op_ok n_wires g"
      by (rule main_tape_ok [where a = "\<lambda>l. gammas ! l" and b = "\<lambda>l. 2 * betas ! l"])
  qed
  then obtain psi where r: "run_ops n_wires ?seq (zero_state n_wires) = Inr psi"
    using run_ops_ok by blast
  then have "device_state dev ?seq = Inr psi"
    by (simp add: device_state_def dev_def)
  with f r show "\<exists>seq m psi.
          seq = ?seq
        \<and> circuit_func gammas betas edge n_layers = Inr (seq, m)
        \<and> run_ops n_wires seq (zero_state n_wires) = Inr psi
        \<and> device_state dev seq = Inr psi"
    by blast
next
  assume a: "edges \<noteq> [] \<and> (\<forall>e \<in> set edges. fst e \<noteq> snd e) \<and> 2 * p \<le> length params"
  let ?V = "fst ` set edges \<union> snd ` set edges"
  let ?nq = "Suc (Max ?V)"
  let ?seq = "map Hadamard [0..<?nq]
            @ concat (map (\<lambda>l.
                concat (map (\<lambda>(i, j). [CNOT i j, RZ (- 2 * params ! l) j, CNOT i j]) edges)
                @ map (RX (2 * params ! (p + l))) [0..<?nq]) [0..<p])"
  have nq: "num_qubits edges = Inr ?nq"
    using a by (simp add: num_qubits_Max)
  have loops: "\<forall>e \<in> set edges. fst e \<noteq> snd e"
    using a by simp
  have idx: "\<forall>l \<in> set [0..<p]. l < length params \<and> p + l < length params"
    using a by auto
  have q: "qaoa_circuit params edges p = Inr (?seq, map (\<lambda>(i, j). Expval i j) edges)"
    by (simp add: qaoa_circuit_def nq qaoa_layers_tape [OF idx loops] hadamard_layer)
  have d: "optimize_qaoa_dev edges = Inr \<lparr>dev_wires = ?nq, dev_shots = None\<rparr>"
    by (simp add: optimize_qaoa_dev_def nq)
  have V: "v < ?nq" if "v \<in> ?V" for v
  proof -
    from that have "v \<le> Max ?V" by (intro Max_ge) simp_all
    then show ?thesis by simp
  qed
  have es: "\<forall>e \<in> set edges. fst e < ?nq \<and> snd e < ?nq \<and> fst e \<noteq> snd e"
  proof
    fix e assume e: "e \<in> set edges"
    then have "fst e \<in> ?V" "snd e \<in> ?V" by simp_all
    then show "fst e < ?nq \<and> snd e < ?nq \<and> fst e \<noteq> snd e"
      using V loops e by blast
  qed
  have "\<forall>g \<in> set ?seq. op_ok ?nq g"
  proof
    fix g assume "g \<in> set ?seq"
    then show "op_ok ?nq g"
      by (rule layered_tape_ok [OF es, where a = "\<lambda>l. - 2 * params ! l"
            and b = "\<lambda>l. 2 * params ! (p + l)"])
  qed
  then obtain psi where r: "run_ops ?nq ?seq (zero_state ?nq) = Inr psi"
    using run_ops_ok by blast
  then have "device_state \<lparr>dev_wires = ?nq, dev_shots = None\<rparr> ?seq = Inr psi"
    by (simp add: device_state_def)
  with nq q d r show "\<exists>nq seq ms d psi.
          num_qubits edges = Inr nq
        \<and> seq = map Hadamard [0..<nq]
            @ concat (map (\<lambda>l.
                concat (map (\<lambda>(i, j). [CNOT i j, RZ (- 2 * params ! l) j, CNOT i j]) edges)
                @ map (RX (2 * params ! (p + l))) [0..<nq]) [0..<p])
        \<and> qaoa_circuit params edges p = Inr (seq, ms)
        \<and> optimize_qaoa_dev edges = Inr d
        \<and> run_ops nq seq (zero_state nq) = Inr psi
        \<and> device_state d seq = Inr psi"
    by blast
qed

theorem gate_sequence_witness:
  "(\<exists>m psi. circuit_func [1] [2] (Some (0, 1)) 1
      = Inr ([Hadamard 0, Hadamard 1, Hadamard 2, Hadamard 3,
              CNOT 0 1, RZ 1 1, CNOT 0 1, CNOT 0 3, RZ 1 3, CNOT 0 3,
              CNOT 1 2, RZ 1 2, CNOT 1 2, CNOT 2 3, RZ 1 3, CNOT 2 3,
              RX 4 0, RX 4 1, RX 4 2, RX 4 3], m)
      \<and> device_state dev [Hadamard 0, Hadamard 1, Hadamard 2, Hadamard 3,
              CNOT 0 1, RZ 1 1, CNOT 0 1, CNOT 0 3, RZ 1 3, CNOT 0 3,
              CNOT 1 2, RZ 1 2, CNOT 1 2, CNOT 2 3, RZ 1 3, CNOT 2 3,
              RX 4 0, RX 4 1, RX 4 2, RX 4 3] = Inr psi)
   \<and> (\<exists>ms d psi. qaoa_circuit [5, 7] [(0, 1), (1, 2)] 1
        = Inr ([Hadamard 0, Hadamard 1, Hadamard 2,
                CNOT 0 1, RZ (- 10) 1, CNOT 0 1, CNOT 1 2, RZ (- 10) 2, CNOT 1 2,
                RX 14 0, RX 14 1, RX 14 2], ms)
      \<and> optimize_qaoa_dev [(0, 1), (1, 2)] = Inr d
      \<and> device_state d [Hadamard 0, Hadamard 1, Hadamard 2,
                CNOT 0 1, RZ (- 10) 1, CNOT 0 1, CNOT 1 2, RZ (- 10) 2, CNOT 1 2,
                RX 14 0, RX 14 1, RX 14 2] = Inr psi)"
proof -
  let ?es = "[(0, 1), (1, 2)] :: edge list"
  let ?l1 = "[Hadamard 0, Hadamard 1, Hadamard 2, Hadamard 3,
       CNOT 0 1, RZ 1 1, CNOT 0 1, CNOT 0 3, RZ 1 3, CNOT 0 3,
       CNOT 1 2, RZ 1 2, CNOT 1 2, CNOT 2 3, RZ 1 3, CNOT 2 3,
       RX 4 0, RX 4 1, RX 4 2, RX 4 3]"
  let ?l2 = "[Hadamard 0, Hadamard 1, Hadamard 2,
       CNOT 0 1, RZ (- 10) 1, CNOT 0 1, CNOT 1 2, RZ (- 10) 2, CNOT 1 2,
       RX 14 0, RX 14 1, RX 14 2]"
  have h1: "1 \<le> length [1 :: real] \<and> 1 \<le> length [2 :: real]"
    by simp
  have h2: "?es \<noteq> [] \<and> (\<forall>e \<in> set ?es. fst e \<noteq> snd e) \<and> 2 * 1 \<le> length [5, 7 :: real]"
    by simp
  have s1: "map Hadamard [0..<n_wires]
      @ concat (map (\<lambda>l.
          concat (map (\<lambda>(i, j). [CNOT i j, RZ ([1] ! l) j, CNOT i j]) graph_edges)
          @ map (RX (2 * [2] ! l)) [0..<n_wires]) [0..<1])
    = ?l1"
    by (simp add: n_wires_def graph_edges_def upt_conv_Cons numeral_2_eq_2 numeral_3_eq_3)
  have nq: "num_qubits ?es = Inr 3"
    by (simp add: num_qubits_def py_max_def)
  have s2: "map Hadamard [0..<3]
      @ concat (map (\<lambda>l.
          concat (map (\<lambda>(i, j). [CNOT i j, RZ (- 2 * [5, 7] ! l) j, CNOT i j]) ?es)
          @ map (RX (2 * [5, 7] ! (1 + l))) [0..<3]) [0..<1])
    = ?l2"
    by (simp add: upt_conv_Cons numeral_2_eq_2 numeral_3_eq_3)
  note t = gate_sequence [of 1 "[1]" "[2]" "Some (0, 1)" ?es 1 "[5, 7]"]
  from t [THEN conjunct1, THEN mp, OF h1] obtain seq m psi where
    a: "seq = map Hadamard [0..<n_wires]
      @ concat (map (\<lambda>l.
          concat (map (\<lambda>(i, j). [CNOT i j, RZ ([1] ! l) j, CNOT i j]) graph_edges)
          @ map (RX (2 * [2] ! l)) [0..<n_wires]) [0..<1])"
    and b: "circuit_func [1] [2] (Some (0, 1)) 1 = Inr (seq, m)"
    and c: "device_state dev seq = Inr psi"
    by (elim exE conjE)
  have seq: "seq = ?l1" using a s1 by (rule trans)
  have first: "\<exists>m psi. circuit_func [1] [2] (Some (0, 1)) 1 = Inr (?l1, m)
      \<and> device_state dev ?l1 = Inr psi"
    using b c unfolding seq by (intro exI conjI)
  from t [THEN conjunct2, THEN mp, OF h2] obtain n seq2 ms d psi2 where
    n: "num_qubits ?es = Inr n"
    and a2: "seq2 = map Hadamard [0..<n]
      @ concat (map (\<lambda>l.
          concat (map (\<lambda>(i, j). [CNOT i j, RZ (- 2 * [5, 7] ! l) j, CNOT i j]) ?es)
          @ map (RX (2 * [5, 7] ! (1 + l))) [0..<n]) [0..<1])"
    and b2: "qaoa_circuit [5, 7] ?es 1 = Inr (seq2, ms)"
    and d: "optimize_qaoa_dev ?es = Inr d"
    and c2: "device_state d seq2 = Inr psi2"
    by (elim exE conjE)
  have n3: "n = 3" using n nq by simp
  have seq2: "seq2 = ?l2" using a2 s2 unfolding n3 by (rule trans)
  have second: "\<exists>ms d psi. qaoa_circuit [5, 7] ?es 1 = Inr (?l2, ms)
      \<and> optimize_qaoa_dev ?es = Inr d \<and> device_state d ?l2 = Inr psi"
    using b2 d c2 unfolding seq2 by (intro exI conjI)
  from first second show ?thesis by (rule conjI)
qed

subsection \<open>C4: the most frequent bit string\<close>

lemma argmax_scan_first:
  assumes "length pre = i" "best < i" "bv = pre ! best"
    and "\<forall>k<i. pre ! k \<le> bv" and "\<forall>k<best. pre ! k < bv"
  shows "argmax_scan cs i best bv < length (pre @ cs)
    \<and> (\<forall>k<length (pre @ cs). (pre @ cs) ! k \<le> (pre @ cs) ! argmax_scan cs i best bv)
    \<and> (\<forall>k<argmax_scan cs i best bv. (pre @ cs) ! k < (pre @ cs) ! argmax_scan cs i best bv)"
  using assms
proof (induction cs arbitrary: pre i best bv)
  case Nil
  then show ?case by simp
next
  case (Cons c cs)
  let ?pre = "pre @ [c]"
  have len: "length ?pre = Suc i" using Cons.prems(1) by simp
  show ?case
  proof (cases "bv < c")
    case True
    have a: "i < Suc i" "c = ?pre ! i" using Cons.prems(1) by (simp_all add: nth_append)
    have b: "\<forall>k<Suc i. ?pre ! k \<le> c"
      using Cons.prems(1,4) True by (auto simp: nth_append less_Suc_eq)
    have c: "\<forall>k<i. ?pre ! k < c"
      using Cons.prems(1,4) True by (auto simp: nth_append intro: le_less_trans)
    from Cons.IH [OF len a b c] True show ?thesis by simp
  next
    case False
    have a: "best < Suc i" "bv = ?pre ! best"
      using Cons.prems(1,2,3) by (simp_all add: nth_append)
    have b: "\<forall>k<Suc i. ?pre ! k \<le> bv"
      using Cons.prems(1,4) False by (auto simp: nth_append less_Suc_eq)
    have c: "\<forall>k<best. ?pre ! k < bv"
      using Cons.prems(1,2,5) by (auto simp: nth_append)
    from Cons.IH [OF len a b c] False show ?thesis by simp
  qed
qed

lemma argmax_first:
  assumes "cs \<noteq> []"
  shows "\<exists>m. argmax cs = Inr m \<and> m < length cs
    \<and> (\<forall>k<length cs. cs ! k \<le> cs ! m) \<and> (\<forall>k<m. cs ! k < cs ! m)"
proof -
  obtain c rest where cs: "cs = c # rest"
    using assms by (cases cs) auto
  have "argmax_scan rest 1 0 c < length ([c] @ rest)
    \<and> (\<forall>k<length ([c] @ rest). ([c] @ rest) ! k \<le> ([c] @ rest) ! argmax_scan rest 1 0 c)
    \<and> (\<forall>k<argmax_scan rest 1 0 c. ([c] @ rest) ! k < ([c] @ rest) ! argmax_scan rest 1 0 c)"
    by (rule argmax_scan_first) simp_all
  then show ?thesis
    by (simp add: argmax_def cs)
qed

lemma bincount_nth:
  assumes "xs \<noteq> []"
  shows "length (bincount xs) = Suc (Max (set xs))"
    and "v \<le> Max (set xs) \<Longrightarrow> bincount xs ! v = count_list xs v"
proof -
  obtain x rest where xs: "xs = x # rest"
    using assms by (cases xs) auto
  have m: "fold max rest x = Max (set xs)"
    by (simp add: fold_max_Max xs)
  show "length (bincount xs) = Suc (Max (set xs))"
    using m by (simp add: bincount_def xs)
  show "bincount xs ! v = count_list xs v" if "v \<le> Max (set xs)"
  proof -
    have "v < Suc (fold max rest x)" using that m by simp
    then have "map (\<lambda>v. count_list xs v) [0..<Suc (fold max rest x)] ! v = count_list xs v"
      by (simp only: nth_map_upt add_0 minus_nat.diff_0)
    then show ?thesis by (simp only: bincount_def xs list.case)
  qed
qed

text \<open>
  C4. For every non-empty list of sampled integers the reported value occurs in the list
  with the maximal count, and among the values with that count it is the smallest.
\<close>

theorem most_frequent_smallest:
  assumes "bit_strings \<noteq> []"
  shows "\<exists>m. most_freq_bit_string bit_strings = Inr m
    \<and> m \<in> set bit_strings
    \<and> (\<forall>v. count_list bit_strings v \<le> count_list bit_strings m)
    \<and> (\<forall>v. count_list bit_strings v = count_list bit_strings m \<longrightarrow> m \<le> v)"
proof -
  let ?M = "Max (set bit_strings)"
  let ?cs = "bincount bit_strings"
  have len: "length ?cs = Suc ?M" and nth: "\<And>v. v \<le> ?M \<Longrightarrow> ?cs ! v = count_list bit_strings v"
    using bincount_nth [OF assms] by simp_all
  have "?cs \<noteq> []" using len by auto
  from argmax_first [OF this] obtain m where m: "argmax ?cs = Inr m" "m < length ?cs"
    "\<forall>k<length ?cs. ?cs ! k \<le> ?cs ! m" "\<forall>k<m. ?cs ! k < ?cs ! m"
    by blast
  have mM: "m \<le> ?M" using m(2) len by simp
  have cm: "?cs ! m = count_list bit_strings m" using nth mM by simp
  have beyond: "count_list bit_strings v = 0" if "?M < v" for v
  proof -
    have "v \<notin> set bit_strings"
    proof
      assume "v \<in> set bit_strings"
      then have "v \<le> ?M" by (intro Max_ge) simp_all
      with that show False by simp
    qed
    then show ?thesis by (simp add: count_list_0_iff)
  qed
  have le: "count_list bit_strings v \<le> count_list bit_strings m" for v
  proof (cases "v \<le> ?M")
    case True
    then show ?thesis using m(3) [rule_format, of v] len nth [of v] cm by simp
  next
    case False
    then show ?thesis using beyond [of v] by simp
  qed
  have pos: "0 < count_list bit_strings m"
  proof -
    have "hd bit_strings \<in> set bit_strings" using assms by simp
    then have "0 < count_list bit_strings (hd bit_strings)"
      by (simp add: count_list_0_iff zero_less_iff_neq_zero)
    with le [of "hd bit_strings"] show ?thesis by simp
  qed
  then have mem: "m \<in> set bit_strings"
    by (metis count_list_0_iff less_numeral_extra(3))
  have least: "m \<le> v" if "count_list bit_strings v = count_list bit_strings m" for v
  proof (rule ccontr)
    assume "\<not> m \<le> v"
    then have vm: "v < m" by simp
    then have "?cs ! v < ?cs ! m" using m(4) by simp
    moreover have "?cs ! v = count_list bit_strings v"
      using nth [of v] vm mM by simp
    ultimately show False using that cm by simp
  qed
  show ?thesis
    using assms m(1) mem le least by (auto simp: most_freq_bit_string_def)
qed

theorem most_frequent_smallest_witness:
  "\<exists>m. most_freq_bit_string [5, 10, 10, 5, 3] = Inr m \<and> m \<in> set [5, 10, 10, 5, 3 :: nat]
    \<and> (\<forall>v. count_list [5, 10, 10, 5, 3 :: nat] v \<le> count_list [5, 10, 10, 5, 3] m)
    \<and> (\<forall>v. count_list [5, 10, 10, 5, 3 :: nat] v = count_list [5, 10, 10, 5, 3] m \<longrightarrow> m \<le> v)"
  by (rule most_frequent_smallest) simp

subsection \<open>C9: the two cost blocks differ by a reparameterization\<close>

text \<open>
  C9. The cost block of \<^verbatim>\<open>main.py\<close> with angle \<open>g\<close> is the cost block of \<^verbatim>\<open>test.py\<close> on
  the same graph with the layer parameter \<open>- g / 2\<close>. With every gamma replaced so and the
  betas unchanged, the two circuits queue the same operations, the register of
  \<^verbatim>\<open>test.py\<close> has the four wires of \<^verbatim>\<open>main.py\<close>, and both devices reach the same state.
\<close>

theorem cost_reparameterization:
  "(layer < length params \<and> params ! layer = - g / 2 \<longrightarrow>
      cost_unitary params layer graph_edges tape = Inr (U_C g tape))
   \<and> (length gammas = p \<and> length betas = p \<longrightarrow>
      (\<exists>ops m ms d psi.
          circuit_func gammas betas edge p = Inr (ops, m)
        \<and> qaoa_circuit (map (\<lambda>g. - g / 2) gammas @ betas) graph_edges p = Inr (ops, ms)
        \<and> optimize_qaoa_dev graph_edges = Inr d
        \<and> device_state dev ops = Inr psi
        \<and> device_state d ops = Inr psi))"
proof (intro conjI impI)
  assume a: "layer < length params \<and> params ! layer = - g / 2"
  then have "- 2 * params ! layer = g" by simp
  then show "cost_unitary params layer graph_edges tape = Inr (U_C g tape)"
    using a by (simp add: cost_unitary_tape graph_no_loops U_C_tape)
next
  assume a: "length gammas = p \<and> length betas = p"
  let ?params = "map (\<lambda>g. - g / 2) gammas @ betas"
  let ?ops = "map Hadamard [0..<n_wires]
      @ concat (map (\<lambda>l.
          concat (map (\<lambda>(i, j). [CNOT i j, RZ (gammas ! l) j, CNOT i j]) graph_edges)
          @ map (RX (2 * betas ! l)) [0..<n_wires]) [0..<p])"
  have idx: "\<forall>i \<in> set [0..<p]. i < length gammas \<and> i < length betas"
    using a by simp
  have "\<exists>m. circuit_func gammas betas edge p = Inr (?ops, m)"
    using idx by (cases edge) (simp_all add: circuit_func_def circuit_layers_tape hadamard_layer)
  then obtain m where main: "circuit_func gammas betas edge p = Inr (?ops, m)" ..
  have idx': "\<forall>l \<in> set [0..<p]. l < length ?params \<and> p + l < length ?params"
    using a by simp
  have angles: "- 2 * ?params ! l = gammas ! l" "?params ! (p + l) = betas ! l" if "l < p" for l
    using a that by (simp_all add: nth_append)
  have "concat (map (\<lambda>l.
          concat (map (\<lambda>(i, j). [CNOT i j, RZ (- 2 * ?params ! l) j, CNOT i j]) graph_edges)
          @ map (RX (2 * ?params ! (p + l))) [0..<n_wires]) [0..<p])
      = concat (map (\<lambda>l.
          concat (map (\<lambda>(i, j). [CNOT i j, RZ (gammas ! l) j, CNOT i j]) graph_edges)
          @ map (RX (2 * betas ! l)) [0..<n_wires]) [0..<p])"
    by (rule arg_cong [where f = concat], rule map_cong)
      (simp_all only: angles set_upt atLeastLessThan_iff)
  then have test: "qaoa_circuit ?params graph_edges p
      = Inr (?ops, map (\<lambda>(i, j). Expval i j) graph_edges)"
    by (simp only: qaoa_circuit_def num_qubits_graph qaoa_layers_tape [OF idx' graph_no_loops] hadamard_layer
        sum.case append_Nil)
  have d: "optimize_qaoa_dev graph_edges = Inr \<lparr>dev_wires = n_wires, dev_shots = None\<rparr>"
    by (simp add: optimize_qaoa_dev_def num_qubits_graph)
  have "\<forall>g \<in> set ?ops. op_ok n_wires g"
  proof
    fix g assume "g \<in> set ?ops"
    then show "op_ok n_wires g"
      by (rule main_tape_ok [where a = "\<lambda>l. gammas ! l" and b = "\<lambda>l. 2 * betas ! l"])
  qed
  then obtain psi where psi: "run_ops n_wires ?ops (zero_state n_wires) = Inr psi"
    using run_ops_ok by blast
  have "device_state dev ?ops = Inr psi"
    "device_state \<lparr>dev_wires = n_wires, dev_shots = None\<rparr> ?ops = Inr psi"
    using psi by (simp_all add: device_state_def dev_def)
  with main test d show "\<exists>ops m ms d psi.
          circuit_func gammas betas edge p = Inr (ops, m)
        \<and> qaoa_circuit ?params graph_edges p = Inr (ops, ms)
        \<and> optimize_qaoa_dev graph_edges = Inr d
        \<and> device_state dev ops = Inr psi
        \<and> device_state d ops = Inr psi"
    by blast
qed

theorem cost_reparameterization_witness:
  "cost_unitary [- 3 / 2, 7] 0 graph_edges [] = Inr (U_C 3 [])
   \<and> (\<exists>ops m ms d psi.
          circuit_func [3] [7] None 1 = Inr (ops, m)
        \<and> qaoa_circuit [- 3 / 2, 7] graph_edges 1 = Inr (ops, ms)
        \<and> optimize_qaoa_dev graph_edges = Inr d
        \<and> device_state dev ops = Inr psi
        \<and> device_state d ops = Inr psi)"
  using cost_reparameterization [of 0 "[- 3 / 2, 7]" 3 "[]" "[3]" 1 "[7]" None]
  by simp

subsection \<open>C10: the register size of test.py\<close>

lemma cost_unitary_wires:
  assumes "cost_unitary params layer es tape = Inr tape'"
  shows "\<Union> (op_wires ` set tape) \<subseteq> \<Union> (op_wires ` set tape')
    \<and> \<Union> (op_wires ` set tape') \<subseteq> \<Union> (op_wires ` set tape) \<union> fst ` set es \<union> snd ` set es"
  using assms
proof (induction es arbitrary: tape)
  case Nil
  then show ?case by simp
next
  case (Cons e es)
  obtain i j where e: "e = (i, j)" by (cases e)
  from Cons.prems obtain g where
    rest: "cost_unitary params layer es (tape @ [CNOT i j, RZ (- 2 * g) j, CNOT i j]) = Inr tape'"
    by (auto simp: e split: sum.splits if_splits)
  from Cons.IH [OF rest] show ?case
    by (auto simp: e)
qed

lemma mixer_unitary_wires:
  assumes "mixer_unitary params k ws tape = Inr tape'"
  shows "\<Union> (op_wires ` set tape) \<subseteq> \<Union> (op_wires ` set tape')
    \<and> \<Union> (op_wires ` set tape') \<subseteq> \<Union> (op_wires ` set tape) \<union> set ws"
  using assms
proof (induction ws arbitrary: tape)
  case Nil
  then show ?case by simp
next
  case (Cons w ws)
  from Cons.prems obtain b where
    rest: "mixer_unitary params k ws (tape @ [RX (2 * b) w]) = Inr tape'"
    by (auto split: sum.splits)
  from Cons.IH [OF rest] show ?case
    by auto
qed

lemma qaoa_layers_wires:
  assumes "qaoa_layers params edges p nq ls tape = Inr tape'"
  shows "\<Union> (op_wires ` set tape) \<subseteq> \<Union> (op_wires ` set tape')
    \<and> \<Union> (op_wires ` set tape') \<subseteq> \<Union> (op_wires ` set tape)
        \<union> fst ` set edges \<union> snd ` set edges \<union> {..<nq}"
  using assms
proof (induction ls arbitrary: tape)
  case Nil
  then show ?case by auto
next
  case (Cons l ls)
  from Cons.prems obtain t1 t2 where
    c: "cost_unitary params l edges tape = Inr t1" and
    m: "mixer_unitary params (p + l) [0..<nq] t1 = Inr t2" and
    rest: "qaoa_layers params edges p nq ls t2 = Inr tape'"
    by (auto split: sum.splits)
  have c': "\<Union> (op_wires ` set tape) \<subseteq> \<Union> (op_wires ` set t1)"
    "\<Union> (op_wires ` set t1) \<subseteq> \<Union> (op_wires ` set tape) \<union> fst ` set edges \<union> snd ` set edges"
    using cost_unitary_wires [OF c] by simp_all
  have m': "\<Union> (op_wires ` set t1) \<subseteq> \<Union> (op_wires ` set t2)"
    "\<Union> (op_wires ` set t2) \<subseteq> \<Union> (op_wires ` set t1) \<union> {..<nq}"
    using mixer_unitary_wires [OF m] by auto
  have r': "\<Union> (op_wires ` set t2) \<subseteq> \<Union> (op_wires ` set tape')"
    "\<Union> (op_wires ` set tape') \<subseteq> \<Union> (op_wires ` set t2)
        \<union> fst ` set edges \<union> snd ` set edges \<union> {..<nq}"
    using Cons.IH [OF rest] by simp_all
  show ?case
  proof
    show "\<Union> (op_wires ` set tape) \<subseteq> \<Union> (op_wires ` set tape')"
      using c'(1) m'(1) r'(1) by (rule subset_trans [OF subset_trans])
    show "\<Union> (op_wires ` set tape') \<subseteq> \<Union> (op_wires ` set tape)
        \<union> fst ` set edges \<union> snd ` set edges \<union> {..<nq}"
    proof
      fix w assume "w \<in> \<Union> (op_wires ` set tape')"
      with r'(2) have "w \<in> \<Union> (op_wires ` set t2) \<or> w \<in> fst ` set edges
          \<or> w \<in> snd ` set edges \<or> w \<in> {..<nq}"
        by blast
      moreover have "w \<in> \<Union> (op_wires ` set t2) \<Longrightarrow> w \<in> \<Union> (op_wires ` set t1) \<or> w \<in> {..<nq}"
        using m'(2) by blast
      moreover have "w \<in> \<Union> (op_wires ` set t1) \<Longrightarrow> w \<in> \<Union> (op_wires ` set tape)
          \<or> w \<in> fst ` set edges \<or> w \<in> snd ` set edges"
        using c'(2) by blast
      ultimately show "w \<in> \<Union> (op_wires ` set tape)
          \<union> fst ` set edges \<union> snd ` set edges \<union> {..<nq}"
        by blast
    qed
  qed
qed

lemma cost_unitary_prefix:
  assumes "cost_unitary params layer es tape = Inr tape'"
  shows "\<exists>r. tape' = tape @ r"
  using assms
proof (induction es arbitrary: tape)
  case Nil
  then show ?case by simp
next
  case (Cons e es)
  obtain i j where e: "e = (i, j)" by (cases e)
  from Cons.prems obtain g where
    rest: "cost_unitary params layer es (tape @ [CNOT i j, RZ (- 2 * g) j, CNOT i j]) = Inr tape'"
    by (auto simp: e split: sum.splits if_splits)
  from Cons.IH [OF rest] obtain r where "tape' = (tape @ [CNOT i j, RZ (- 2 * g) j, CNOT i j]) @ r" ..
  then have "tape' = tape @ ([CNOT i j, RZ (- 2 * g) j, CNOT i j] @ r)" by simp
  then show ?case ..
qed

lemma mixer_unitary_prefix:
  assumes "mixer_unitary params k ws tape = Inr tape'"
  shows "\<exists>r. tape' = tape @ r"
  using assms
proof (induction ws arbitrary: tape)
  case Nil
  then show ?case by simp
next
  case (Cons w ws)
  from Cons.prems obtain b where
    rest: "mixer_unitary params k ws (tape @ [RX (2 * b) w]) = Inr tape'"
    by (auto split: sum.splits)
  from Cons.IH [OF rest] obtain r where "tape' = (tape @ [RX (2 * b) w]) @ r" ..
  then have "tape' = tape @ ([RX (2 * b) w] @ r)" by simp
  then show ?case ..
qed

lemma qaoa_layers_prefix:
  assumes "qaoa_layers params edges p nq ls tape = Inr tape'"
  shows "\<exists>r. tape' = tape @ r"
  using assms
proof (induction ls arbitrary: tape)
  case Nil
  then show ?case by simp
next
  case (Cons l ls)
  from Cons.prems obtain t1 t2 where
    c: "cost_unitary params l edges tape = Inr t1" and
    m: "mixer_unitary params (p + l) [0..<nq] t1 = Inr t2" and
    rest: "qaoa_layers params edges p nq ls t2 = Inr tape'"
    by (auto split: sum.splits)
  from cost_unitary_prefix [OF c] obtain r1 where r1: "t1 = tape @ r1" ..
  from mixer_unitary_prefix [OF m] obtain r2 where r2: "t2 = t1 @ r2" ..
  from Cons.IH [OF rest] obtain r3 where r3: "tape' = t2 @ r3" ..
  have "tape' = tape @ (r1 @ r2 @ r3)" by (simp add: r1 r2 r3)
  then show ?case ..
qed

lemma hadamard_wires: "\<Union> (op_wires ` set (map Hadamard [0..<n])) = {..<n}"
  by auto

text \<open>
  C10. For every non-empty edge list, \<^verbatim>\<open>test.py\<close> takes one plus the largest vertex index
  of the list as the number of qubits; the device of \<^verbatim>\<open>optimize_qaoa\<close> has that many
  wires, and every tape of \<^verbatim>\<open>qaoa_circuit\<close> starts with a Hadamard on each of them and
  touches exactly these wires.
\<close>

theorem register_size:
  assumes "edges \<noteq> []"
  shows "\<exists>n. n = Suc (Max (fst ` set edges \<union> snd ` set edges))
    \<and> num_qubits edges = Inr n
    \<and> optimize_qaoa_dev edges = Inr \<lparr>dev_wires = n, dev_shots = None\<rparr>
    \<and> (\<forall>params p tape ms. qaoa_circuit params edges p = Inr (tape, ms) \<longrightarrow>
          take n tape = map Hadamard [0..<n] \<and> \<Union> (op_wires ` set tape) = {..<n})"
proof -
  let ?V = "fst ` set edges \<union> snd ` set edges"
  let ?n = "Suc (Max ?V)"
  have nq: "num_qubits edges = Inr ?n"
    using assms by (rule num_qubits_Max)
  have V: "?V \<subseteq> {..<?n}"
  proof
    fix v assume "v \<in> ?V"
    then have "v \<le> Max ?V" by (intro Max_ge) simp_all
    then show "v \<in> {..<?n}" by simp
  qed
  have circ: "take ?n tape = map Hadamard [0..<?n] \<and> \<Union> (op_wires ` set tape) = {..<?n}"
    if q: "qaoa_circuit params edges p = Inr (tape, ms)" for params p tape ms
  proof -
    have "\<exists>t. qaoa_layers params edges p ?n [0..<p] (map Hadamard [0..<?n]) = Inr t"
      using q by (simp add: qaoa_circuit_def nq hadamard_layer split: sum.splits)
    then obtain t where l: "qaoa_layers params edges p ?n [0..<p] (map Hadamard [0..<?n]) = Inr t" ..
    have "t = tape"
      using q l by (simp add: qaoa_circuit_def nq hadamard_layer)
    with l have l: "qaoa_layers params edges p ?n [0..<p] (map Hadamard [0..<?n]) = Inr tape"
      by simp
    have h: "\<Union> (op_wires ` set (map Hadamard [0..<?n])) = {..<?n}"
      by (rule hadamard_wires)
    have sub: "{..<?n} \<subseteq> \<Union> (op_wires ` set tape)"
      "\<Union> (op_wires ` set tape) \<subseteq> {..<?n} \<union> fst ` set edges \<union> snd ` set edges \<union> {..<?n}"
      using qaoa_layers_wires [OF l] unfolding h by simp_all
    have w: "\<Union> (op_wires ` set tape) = {..<?n}"
    proof (rule equalityI)
      show "{..<?n} \<subseteq> \<Union> (op_wires ` set tape)" by (rule sub(1))
      show "\<Union> (op_wires ` set tape) \<subseteq> {..<?n}"
        using sub(2) V by blast
    qed
    from qaoa_layers_prefix [OF l] obtain r where "tape = map Hadamard [0..<?n] @ r" ..
    then have "take ?n tape = map Hadamard [0..<?n]"
      by simp
    then show ?thesis using w by (rule conjI)
  qed
  have d: "optimize_qaoa_dev edges = Inr \<lparr>dev_wires = ?n, dev_shots = None\<rparr>"
    by (simp add: optimize_qaoa_dev_def nq)
  show ?thesis
    using nq d circ by blast
qed

theorem register_size_witness:
  "num_qubits [(0, 2), (4, 1)] = Inr 5
   \<and> optimize_qaoa_dev [(0, 2), (4, 1)] = Inr \<lparr>dev_wires = 5, dev_shots = None\<rparr>
   \<and> (\<exists>tape ms. qaoa_circuit [1, 2] [(0, 2), (4, 1)] 1 = Inr (tape, ms)
        \<and> take 5 tape = map Hadamard [0..<5] \<and> \<Union> (op_wires ` set tape) = {..<5})"
proof -
  let ?es = "[(0, 2), (4, 1)] :: edge list"
  have ne: "?es \<noteq> []"
    by simp
  have five: "Suc (Max (fst ` set ?es \<union> snd ` set ?es)) = 5"
    by simp
  have idx: "\<forall>l \<in> set [0..<1]. l < length [1, 2 :: real] \<and> 1 + l < length [1, 2 :: real]"
    by simp
  have loops: "\<forall>e \<in> set ?es. fst e \<noteq> snd e"
    by simp
  have "\<exists>tape. qaoa_layers [1, 2] ?es 1 5 [0..<1] (map Hadamard [0..<5]) = Inr tape"
    by (simp only: qaoa_layers_tape [OF idx loops]) (rule exI, rule refl)
  then obtain tape where
    l: "qaoa_layers [1, 2] ?es 1 5 [0..<1] (map Hadamard [0..<5]) = Inr tape" ..
  from register_size [OF ne] have
    nq: "num_qubits ?es = Inr 5"
    and d: "optimize_qaoa_dev ?es = Inr \<lparr>dev_wires = 5, dev_shots = None\<rparr>"
    and c: "\<forall>params p tape ms. qaoa_circuit params ?es p = Inr (tape, ms) \<longrightarrow>
          take 5 tape = map Hadamard [0..<5] \<and> \<Union> (op_wires ` set tape) = {..<5}"
    unfolding five by simp_all
  have q: "qaoa_circuit [1, 2] ?es 1 = Inr (tape, map (\<lambda>(i, j). Expval i j) ?es)"
    by (simp only: qaoa_circuit_def nq hadamard_layer l sum.case)
  from c q have "take 5 tape = map Hadamard [0..<5] \<and> \<Union> (op_wires ` set tape) = {..<5}"
    by blast
  with q nq d show ?thesis
    by blast
qed

subsection \<open>C5: the gates preserve the norm\<close>

text \<open>
  C5. Every state reachable from the all-zero state by Hadamard, RX, RZ and CNOT gates,
  with any real angles, has squared amplitude magnitudes that sum to 1; in particular the
  sum is within \<open>1e-9\<close> of 1. The reachable states are exactly the states between the
  gate applications of a run.
\<close>

theorem reachable_norm:
  assumes "reachable n psi"
  shows "norm2 n psi = 1 \<and> \<bar>norm2 n psi - 1\<bar> \<le> 1 / 10 ^ 9"
proof -
  have "norm2 n psi = 1"
    using assms
  proof (induction rule: reachable.induct)
    case initial
    show ?case by (rule norm2_zero_state)
  next
    case (gate psi g psi')
    then show ?case by (simp add: apply_gate_norm2)
  qed
  then show ?thesis by simp
qed

theorem reachable_norm_witness:
  "norm2 2 (apply_cnot 0 1 (apply_single (RX_matrix 3) 0 (zero_state 2))) = 1
   \<and> \<bar>norm2 2 (apply_cnot 0 1 (apply_single (RX_matrix 3) 0 (zero_state 2))) - 1\<bar> \<le> 1 / 10 ^ 9"
proof -
  have "reachable 2 (apply_single (RX_matrix 3) 0 (zero_state 2))"
    by (rule reachable.gate [OF reachable.initial, where g = "RX 3 0"]) (simp add: apply_gate_def)
  then have "reachable 2 (apply_cnot 0 1 (apply_single (RX_matrix 3) 0 (zero_state 2)))"
    by (rule reachable.gate [where g = "CNOT 0 1"]) (simp add: apply_gate_def)
  then show ?thesis
    by (rule reachable_norm)
qed

subsection \<open>C6: the circuit at zero angles\<close>

lemma cost_block_zero:
  assumes "\<forall>e \<in> set es. fst e < n \<and> snd e < n \<and> fst e \<noteq> snd e"
  shows "run_ops n (concat (map (\<lambda>(i, j). [CNOT i j, RZ 0 j, CNOT i j]) es)) psi = Inr psi"
  using assms
proof (induction es)
  case Nil
  show ?case by simp
next
  case (Cons e es)
  obtain i j where e: "e = (i, j)" by (cases e)
  have ok: "i < n" "j < n" "i \<noteq> j" using Cons.prems by (simp_all add: e)
  have "run_ops n [CNOT i j, RZ 0 j, CNOT i j] psi = Inr psi"
    using ok by (simp add: apply_gate_def RZ_matrix_zero apply_single_identity apply_cnot_twice)
  moreover have "run_ops n (concat (map (\<lambda>(i, j). [CNOT i j, RZ 0 j, CNOT i j]) es)) psi = Inr psi"
    using Cons by simp
  ultimately show ?case
    using run_ops_append [of n "[CNOT i j, RZ 0 j, CNOT i j]"
        "concat (map (\<lambda>(i, j). [CNOT i j, RZ 0 j, CNOT i j]) es)" psi]
    by (simp add: e)
qed

lemma mixer_zero:
  assumes "\<forall>w \<in> set ws. w < n"
  shows "run_ops n (map (RX 0) ws) psi = Inr psi"
  using assms
  by (induction ws) (simp_all add: apply_gate_def RX_matrix_zero apply_single_identity)

lemma quarter: "complex_of_real ((1 / sqrt 2) ^ 4) = 1 / 4"
proof -
  have "(sqrt 2) ^ 4 = ((sqrt 2)\<^sup>2)\<^sup>2"
    by (simp only: power_mult [symmetric]) simp
  then have "(sqrt 2) ^ 4 = 4" by simp
  then have "(1 / sqrt 2) ^ 4 = 1 / 4" by (simp add: power_one_over)
  then have "complex_of_real ((1 / sqrt 2) ^ 4) = complex_of_real (1 / 4)"
    by (simp only:)
  also have "complex_of_real (1 / 4) = 1 / 4" by simp
  finally show ?thesis .
qed

lemma zero_angle_tape:
  "\<exists>m. circuit_func [0] [0] edge 1
      = Inr (map Hadamard [0..<n_wires]
           @ concat (map (\<lambda>(i, j). [CNOT i j, RZ 0 j, CNOT i j]) graph_edges)
           @ map (RX 0) [0..<n_wires], m)"
proof -
  let ?h = "map Hadamard [0..<n_wires]"
  have "circuit_layers [0] [0] [0..<1] ?h
      = Inr (?h @ concat (map (\<lambda>l.
           concat (map (\<lambda>(i, j). [CNOT i j, RZ ([0] ! l) j, CNOT i j]) graph_edges)
           @ map (RX (2 * [0] ! l)) [0..<n_wires]) [0..<1]))"
    by (rule circuit_layers_tape) simp
  also have "[0..<1] = [0]" by simp
  finally have cl: "circuit_layers [0] [0] [0..<1] ?h
      = Inr (?h @ concat (map (\<lambda>(i, j). [CNOT i j, RZ 0 j, CNOT i j]) graph_edges)
           @ map (RX 0) [0..<n_wires])"
    by simp
  show ?thesis
    by (cases edge) (simp_all only: circuit_func_def hadamard_layer cl sum.case option.case, blast+)
qed

lemma zero_angle_run:
  "run_ops n_wires (map Hadamard [0..<n_wires]
           @ concat (map (\<lambda>(i, j). [CNOT i j, RZ 0 j, CNOT i j]) graph_edges)
           @ map (RX 0) [0..<n_wires]) (zero_state n_wires)
    = Inr (\<lambda>bs. if length bs = n_wires then 1 / 4 else 0)"
proof -
  have g: "\<forall>e \<in> set graph_edges. fst e < n_wires \<and> snd e < n_wires \<and> fst e \<noteq> snd e"
    by (simp add: graph_edges_def n_wires_def)
  have w: "\<forall>w \<in> set [0..<n_wires]. w < n_wires" by simp
  have "complex_of_real ((1 / sqrt 2) ^ n_wires) = 1 / 4"
    using quarter by (simp only: n_wires_def)
  then have h: "run_ops n_wires (map Hadamard [0..<n_wires]) (zero_state n_wires)
      = Inr (\<lambda>bs. if length bs = n_wires then 1 / 4 else 0)"
    by (simp only: hadamard_all)
  show ?thesis
    by (simp only: run_ops_append h sum.case cost_block_zero [OF g] mixer_zero [OF w])
qed

lemma expectation_sum:
  "expectation n psi i j = (\<Sum>bs | length bs = n. (cmod (psi bs))\<^sup>2 * zz_eigenvalue i j bs)"
  by (simp add: expectation_def sum_basis)

lemma expectation_uniform:
  assumes "i < n" "j < n" "i \<noteq> j" and u: "\<And>bs. length bs = n \<Longrightarrow> psi bs = c"
  shows "expectation n psi i j = 0"
proof -
  let ?f = "\<lambda>bs. (cmod (psi bs))\<^sup>2 * zz_eigenvalue i j bs"
  have "?f bs + ?f (bs[i := True]) = 0" if bs: "length bs = n \<and> \<not> bs ! i" for bs
  proof -
    have a: "psi bs = c" "psi (bs[i := True]) = c"
      using bs u by simp_all
    have b: "bs[i := True] ! i = True" "bs[i := True] ! j = bs ! j"
      using bs assms(1,3) by simp_all
    show ?thesis
      using bs by (simp add: a zz_eigenvalue_def b)
  qed
  then have "(\<Sum>bs | length bs = n \<and> \<not> bs ! i. ?f bs + ?f (bs[i := True])) = 0"
    by simp
  then show ?thesis
    by (simp only: expectation_sum sum_split_wire [OF assms(1)])
qed

text \<open>
  C6. For one layer on the 4-cycle with gamma = 0 and beta = 0, the state in which the
  device measures is the equal superposition of the 16 basis states, every amplitude being
  1/4, and the expectation of the ZZ observable of every edge is 0 (so within \<open>1e-9\<close> of 0).
\<close>

theorem zero_angle_state:
  "\<exists>tape m psi.
      circuit_func [0] [0] edge 1 = Inr (tape, m)
    \<and> device_state dev tape = Inr psi
    \<and> length (basis n_wires) = 16
    \<and> (\<forall>bs \<in> set (basis n_wires). psi bs = 1 / 4)
    \<and> (\<forall>e \<in> set graph_edges.
          expectation n_wires psi (fst e) (snd e) = 0
        \<and> \<bar>expectation n_wires psi (fst e) (snd e)\<bar> \<le> 1 / 10 ^ 9)"
proof -
  let ?tape = "map Hadamard [0..<n_wires]
           @ concat (map (\<lambda>(i, j). [CNOT i j, RZ 0 j, CNOT i j]) graph_edges)
           @ map (RX 0) [0..<n_wires]"
  let ?psi = "\<lambda>bs :: bool list. if length bs = n_wires then 1 / 4 else (0 :: complex)"
  obtain m where t: "circuit_func [0] [0] edge 1 = Inr (?tape, m)"
    using zero_angle_tape by blast
  have s: "device_state dev ?tape = Inr ?psi"
    using zero_angle_run by (simp add: device_state_def dev_def)
  have len: "length (basis n) = 2 ^ n" for n
    by (induction n) simp_all
  have l: "length (basis n_wires) = 16"
    by (simp add: len n_wires_def)
  have amp: "\<forall>bs \<in> set (basis n_wires). ?psi bs = 1 / 4"
    by (simp add: set_basis)
  have ex: "expectation n_wires ?psi (fst e) (snd e) = 0" if "e \<in> set graph_edges" for e
  proof (rule expectation_uniform [where c = "1 / 4"])
    show "fst e < n_wires" "snd e < n_wires" "fst e \<noteq> snd e"
      using that by (auto simp: graph_edges_def n_wires_def)
    show "?psi bs = 1 / 4" if "length bs = n_wires" for bs
      using that by simp
  qed
  have "\<forall>e \<in> set graph_edges.
          expectation n_wires ?psi (fst e) (snd e) = 0
        \<and> \<bar>expectation n_wires ?psi (fst e) (snd e)\<bar> \<le> 1 / 10 ^ 9"
    using ex by simp
  with t s l amp show ?thesis
    by blast
qed

theorem zero_angle_state_witness:
  "\<exists>tape m psi.
      circuit_func [0] [0] (Some (0, 1)) 1 = Inr (tape, m)
    \<and> device_state dev tape = Inr psi
    \<and> psi [False, True, True, False] = 1 / 4
    \<and> expectation n_wires psi 1 2 = 0"
proof -
  have a: "[False, True, True, False] \<in> set (basis n_wires)"
    by (simp add: set_basis n_wires_def)
  have b: "(1, 2) \<in> set graph_edges"
    by (simp add: graph_edges_def)
  from zero_angle_state [of "Some (0, 1)"] obtain tape m psi where
    t: "circuit_func [0] [0] (Some (0, 1)) 1 = Inr (tape, m)"
    and s: "device_state dev tape = Inr psi"
    and amp: "\<forall>bs \<in> set (basis n_wires). psi bs = 1 / 4"
    and ex: "\<forall>e \<in> set graph_edges. expectation n_wires psi (fst e) (snd e) = 0
        \<and> \<bar>expectation n_wires psi (fst e) (snd e)\<bar> \<le> 1 / 10 ^ 9"
    by blast
  from amp a have "psi [False, True, True, False] = 1 / 4" by blast
  moreover from ex b have "expectation n_wires psi (fst (1 :: nat, 2 :: nat)) (snd (1 :: nat, 2 :: nat)) = 0"
    by blast
  ultimately show ?thesis
    using t s by auto
qed

section \<open>Properties of the QNode of main.py\<close>

text \<open>
  On the device of \<^verbatim>\<open>main.py\<close> every call of \<^verbatim>\<open>circuit\<close> takes one shot: it consumes one
  draw of the random source, and its result is read off the one sampled bit sequence.
\<close>

lemma circuit_one_shot:
  "circuit rng gammas betas edge n_layers =
     (case circuit_func gammas betas edge n_layers of
        Inl e \<Rightarrow> Inl e
      | Inr qtape \<Rightarrow>
          (case device_state dev (fst qtape) of
             Inl e \<Rightarrow> Inl e
           | Inr psi \<Rightarrow>
               (case snd qtape of
                  Sample \<Rightarrow> Inr (Samples [measure_sample n_wires psi (shd rng)], stl rng)
                | Expval i j \<Rightarrow>
                    if i < n_wires \<and> j < n_wires
                    then Inr (Expectation
                           (zz_eigenvalue i j (measure_sample n_wires psi (shd rng))), stl rng)
                    else Inl DimensionError)))"
  by (simp add: circuit_def execute_def dev_def split: sum.split measurement.split)

lemma main_state:
  assumes "n_layers \<le> length gammas" "n_layers \<le> length betas"
  shows "\<exists>tape psi. device_state dev tape = Inr psi
    \<and> (\<forall>edge. circuit_func gammas betas edge n_layers
          = Inr (tape, case edge of None \<Rightarrow> Sample | Some e \<Rightarrow> Expval (fst e) (snd e)))"
proof -
  let ?ops = "map Hadamard [0..<n_wires]
      @ concat (map (\<lambda>l.
          concat (map (\<lambda>(i, j). [CNOT i j, RZ (gammas ! l) j, CNOT i j]) graph_edges)
          @ map (RX (2 * betas ! l)) [0..<n_wires]) [0..<n_layers])"
  have idx: "\<forall>i \<in> set [0..<n_layers]. i < length gammas \<and> i < length betas"
    using assms by simp
  have f: "circuit_func gammas betas edge n_layers
      = Inr (?ops, case edge of None \<Rightarrow> Sample | Some e \<Rightarrow> Expval (fst e) (snd e))" for edge
    using idx by (cases edge) (simp_all add: circuit_func_def circuit_layers_tape hadamard_layer)
  have "\<forall>g \<in> set ?ops. op_ok n_wires g"
  proof
    fix g assume "g \<in> set ?ops"
    then show "op_ok n_wires g"
      by (rule main_tape_ok [where a = "\<lambda>l. gammas ! l" and b = "\<lambda>l. 2 * betas ! l"])
  qed
  then obtain psi where "run_ops n_wires ?ops (zero_state n_wires) = Inr psi"
    using run_ops_ok by blast
  then have "device_state dev ?ops = Inr psi"
    by (simp add: device_state_def dev_def)
  with f show ?thesis by blast
qed

lemma objective_loop_sum:
  assumes st: "device_state dev tape = Inr psi"
    and cf: "\<And>e. circuit_func gammas betas (Some e) n_layers = Inr (tape, Expval (fst e) (snd e))"
    and es: "\<forall>e \<in> set es. fst e < n_wires \<and> snd e < n_wires"
  shows "objective_loop n_layers gammas betas es neg_obj rng
    = Inr (neg_obj - 0.5 * (\<Sum>k<length es. 1 - zz_eigenvalue (fst (es ! k)) (snd (es ! k))
                (measure_sample n_wires psi (shd (sdrop k rng)))),
           sdrop (length es) rng)"
  using es
proof (induction es arbitrary: neg_obj rng)
  case Nil
  show ?case by simp
next
  case (Cons e es)
  let ?v = "\<lambda>e r. zz_eigenvalue (fst e) (snd e) (measure_sample n_wires psi (shd r))"
  have e: "fst e < n_wires" "snd e < n_wires" using Cons.prems by simp_all
  have c: "circuit rng gammas betas (Some e) n_layers = Inr (Expectation (?v e rng), stl rng)"
    by (simp add: circuit_one_shot cf st e)
  have rest: "\<forall>e \<in> set es. fst e < n_wires \<and> snd e < n_wires"
    using Cons.prems by simp
  have "(\<Sum>k<Suc (length es). 1 - ?v ((e # es) ! k) (sdrop k rng))
      = (1 - ?v e rng) + (\<Sum>k<length es. 1 - ?v (es ! k) (sdrop k (stl rng)))"
    by (subst sum.lessThan_Suc_shift) simp
  then show ?case
    by (simp add: c Cons.IH [OF rest] algebra_simps del: sum.lessThan_Suc)
qed

lemma basis_4:
  "basis n_wires =
    [[False, False, False, False], [False, False, False, True],
     [False, False, True, False], [False, False, True, True],
     [False, True, False, False], [False, True, False, True],
     [False, True, True, False], [False, True, True, True],
     [True, False, False, False], [True, False, False, True],
     [True, False, True, False], [True, False, True, True],
     [True, True, False, False], [True, True, False, True],
     [True, True, True, False], [True, True, True, True]]"
  by (simp add: n_wires_def eval_nat_numeral)

lemma zero_angle_circuit:
  "circuit rng [0] [0] edge 1 =
     (case edge of
        None \<Rightarrow>
          Inr (Samples [measure_sample n_wires (\<lambda>bs. if length bs = n_wires then 1 / 4 else 0)
                  (shd rng)], stl rng)
      | Some e \<Rightarrow>
          if fst e < n_wires \<and> snd e < n_wires
          then Inr (Expectation (zz_eigenvalue (fst e) (snd e)
                 (measure_sample n_wires (\<lambda>bs. if length bs = n_wires then 1 / 4 else 0)
                    (shd rng))), stl rng)
          else Inl DimensionError)"
proof -
  let ?tape = "map Hadamard [0..<n_wires]
           @ concat (map (\<lambda>(i, j). [CNOT i j, RZ 0 j, CNOT i j]) graph_edges)
           @ map (RX 0) [0..<n_wires]"
  obtain m where t: "circuit_func [0] [0] edge 1 = Inr (?tape, m)"
    using zero_angle_tape by blast
  have m: "m = (case edge of None \<Rightarrow> Sample | Some e \<Rightarrow> Expval (fst e) (snd e))"
    using t by (cases edge) (auto simp: circuit_func_def split: sum.splits)
  have s: "device_state dev ?tape = Inr (\<lambda>bs. if length bs = n_wires then 1 / 4 else 0)"
    using zero_angle_run by (simp add: device_state_def dev_def)
  show ?thesis
    unfolding circuit_one_shot t m by (cases edge) (simp_all add: s)
qed

lemma sample_at_0:
  "measure_sample n_wires (\<lambda>bs. if length bs = n_wires then 1 / 4 else 0) 0
    = [False, False, False, False]"
  by (simp add: measure_sample_def basis_4) (simp add: n_wires_def)

lemma sample_at_3_10:
  "measure_sample n_wires (\<lambda>bs. if length bs = n_wires then 1 / 4 else 0) (3 / 10)
    = [False, True, False, False]"
  by (simp add: measure_sample_def basis_4) (simp add: n_wires_def power2_eq_square norm_divide)

lemma zero_angle_shot:
  assumes "fst e < 4" "snd e < 4"
  shows "circuit (sconst u) [0] [0] (Some e) (Suc 0)
    = Inr (Expectation (zz_eigenvalue (fst e) (snd e)
        (measure_sample n_wires (\<lambda>bs. if length bs = n_wires then 1 / 4 else 0) u)), sconst u)"
  using assms zero_angle_circuit [of "sconst u" "Some e"]
  by (simp add: n_wires_def)

lemma sample_at_5_16:
  "measure_sample n_wires (\<lambda>bs. if length bs = n_wires then 1 / 4 else 0) (5 / 16)
    = [False, True, False, True]"
  by (simp add: measure_sample_def basis_4) (simp add: n_wires_def power2_eq_square norm_divide)

lemma circuit_layers_error:
  assumes "circuit_layers gammas betas ls tape = Inl e"
  shows "e = IndexError"
  using assms
  by (induction ls arbitrary: tape) (auto simp: getitem_def Let_def split: sum.splits if_splits)

lemma circuit_func_cases:
  "circuit_func gammas betas edge n_layers = Inl IndexError
   \<or> (\<exists>tape. circuit_func gammas betas edge n_layers
         = Inr (tape, case edge of None \<Rightarrow> Sample | Some e \<Rightarrow> Expval (fst e) (snd e)))"
proof (cases "circuit_layers gammas betas [0..<n_layers] (map Hadamard [0..<n_wires])")
  case (Inl e)
  then have "e = IndexError" by (rule circuit_layers_error)
  with Inl show ?thesis by (simp add: circuit_func_def hadamard_layer)
next
  case (Inr tape)
  then show ?thesis by (cases edge) (simp_all add: circuit_func_def hadamard_layer)
qed


lemma circuit_edge_value:
  assumes "circuit rng gammas betas (Some edge) n_layers = Inr (res, rng')"
  shows "\<exists>v. res = Expectation v \<and> (v = 1 \<or> v = - 1) \<and> rng' = stl rng"
  using assms circuit_func_cases [of gammas betas "Some edge" n_layers]
  by (auto simp: circuit_one_shot zz_eigenvalue_def split: sum.splits if_splits)

lemma objective_loop_values:
  assumes "objective_loop n_layers gammas betas es neg_obj rng = Inr (c, r)"
  shows "\<exists>k \<le> length es. c = neg_obj - real k"
  using assms
proof (induction es arbitrary: neg_obj rng)
  case Nil
  then show ?case by simp
next
  case (Cons e es)
  from Cons.prems obtain res rng' where
    call: "circuit rng gammas betas (Some e) n_layers = Inr (res, rng')"
    by (auto split: sum.splits)
  from circuit_edge_value [OF call] obtain v where
    v: "res = Expectation v" "v = 1 \<or> v = - 1" by blast
  from Cons.prems have rest:
    "objective_loop n_layers gammas betas es (neg_obj - 0.5 * (1 - v)) rng' = Inr (c, r)"
    by (simp add: call v(1))
  from Cons.IH [OF rest] obtain k where k: "k \<le> length es" "c = neg_obj - 0.5 * (1 - v) - real k"
    by blast
  from v(2) show ?case
  proof
    assume "v = 1"
    with k have "k \<le> length (e # es) \<and> c = neg_obj - real k" by simp
    then show ?thesis by blast
  next
    assume "v = - 1"
    with k have "Suc k \<le> length (e # es) \<and> c = neg_obj - real (Suc k)" by simp
    then show ?thesis by blast
  qed
qed

lemma objective_values:
  assumes "objective n_layers rng params = Inr (c, r)"
  shows "c \<in> {0, - 1, - 2, - 3, - 4}"
proof -
  from assms obtain gammas betas where
    "objective_loop n_layers gammas betas graph_edges 0 rng = Inr (c, r)"
    by (auto simp: objective_def split: sum.splits)
  from objective_loop_values [OF this] obtain k where k: "k \<le> 4" "c = - real k"
    by (auto simp: graph_edges_def)
  from k(1) have "k = 0 \<or> k = 1 \<or> k = 2 \<or> k = 3 \<or> k = 4" by arith
  with k(2) show ?thesis by auto
qed

lemma zero_angle_spec_cost: "spec_cost 1 [[0], [0]] = Inr (- 2)"
proof -
  let ?tape = "map Hadamard [0..<n_wires]
           @ concat (map (\<lambda>(i, j). [CNOT i j, RZ 0 j, CNOT i j]) graph_edges)
           @ map (RX 0) [0..<n_wires]"
  let ?psi = "\<lambda>bs :: bool list. if length bs = n_wires then 1 / 4 else (0 :: complex)"
  obtain m where t: "circuit_func [0] [0] None 1 = Inr (?tape, m)"
    using zero_angle_tape by blast
  have s: "device_state dev ?tape = Inr ?psi"
    using zero_angle_run by (simp add: device_state_def dev_def)
  have ex: "expectation n_wires ?psi i j = 0" if "i < n_wires" "j < n_wires" "i \<noteq> j" for i j
    using that by (rule expectation_uniform [where c = "1 / 4"]) simp
  have e: "expectation n_wires ?psi 0 (Suc 0) = 0" "expectation n_wires ?psi 0 3 = 0"
    "expectation n_wires ?psi (Suc 0) 2 = 0" "expectation n_wires ?psi 2 3 = 0"
    by (rule ex; simp add: n_wires_def)+
  have "(\<Sum>edge\<leftarrow>graph_edges. 1 - expectation n_wires ?psi (fst edge) (snd edge)) = 4"
    by (simp add: graph_edges_def e)
  then show ?thesis
    by (simp add: spec_cost_def getitem_def t [unfolded One_nat_def] s)
qed

subsection \<open>C1: the value of the objective\<close>

text \<open>
  C1, as stated, fails: the value that enters the sum is not the expectation value of the
  ZZ observable. At gamma = 0 and beta = 0 the expectation of every edge is 0, so the
  formula of the claim gives \<open>- 0.5 * 4 = - 2\<close>; the objective evaluated with all draws 0
  samples 0000 for every edge and returns 0.
\<close>

theorem objective_not_spec_cost:
  "map_sum id fst (objective 1 (sconst 0) [[0], [0]]) = Inr 0
   \<and> spec_cost 1 [[0], [0]] = Inr (- 2)"
  by (simp add: objective_def getitem_def graph_edges_def zero_angle_shot
      sample_at_0 zz_eigenvalue_def zero_angle_spec_cost [unfolded One_nat_def])

text \<open>
  C1, amended. For a parameter array whose rows \<^verbatim>\<open>params[0]\<close> and \<^verbatim>\<open>params[1]\<close> hold a
  gamma and a beta for every layer, \<^verbatim>\<open>objective\<close> returns \<open>- 0.5\<close> times the sum over the
  edges of the graph of one minus the value that the call of \<^verbatim>\<open>circuit\<close> for that edge
  returned. On the single-shot device that value is the one-shot estimate of the
  expectation: the ZZ eigenvalue, 1 or -1, of one bit sequence sampled from the final state
  of the circuit with the next draw of the random source.
\<close>

theorem objective_value:
  assumes "1 < length params" "gammas = params ! 0" "betas = params ! 1"
    and "n_layers \<le> length gammas" "n_layers \<le> length betas"
  shows "\<exists>tape psi vs.
      (\<forall>edge. \<exists>m. circuit_func gammas betas edge n_layers = Inr (tape, m))
    \<and> device_state dev tape = Inr psi
    \<and> vs = map (\<lambda>k. zz_eigenvalue (fst (graph_edges ! k)) (snd (graph_edges ! k))
                    (measure_sample n_wires psi (rng !! k))) [0..<length graph_edges]
    \<and> (\<forall>k<length graph_edges.
          circuit (sdrop k rng) gammas betas (Some (graph_edges ! k)) n_layers
            = Inr (Expectation (vs ! k), sdrop (Suc k) rng))
    \<and> (\<forall>v \<in> set vs. v = 1 \<or> v = - 1)
    \<and> objective n_layers rng params
        = Inr (- 0.5 * (\<Sum>v\<leftarrow>vs. 1 - v), sdrop (length graph_edges) rng)"
proof -
  from main_state [OF assms(4,5)] obtain tape psi where
    st: "device_state dev tape = Inr psi" and
    cf: "\<And>edge. circuit_func gammas betas edge n_layers
          = Inr (tape, case edge of None \<Rightarrow> Sample | Some e \<Rightarrow> Expval (fst e) (snd e))"
    by blast
  have cf': "circuit_func gammas betas (Some e) n_layers = Inr (tape, Expval (fst e) (snd e))" for e
    by (simp add: cf)
  have any: "\<forall>edge. \<exists>m. circuit_func gammas betas edge n_layers = Inr (tape, m)"
    using cf by blast
  have es: "\<forall>e \<in> set graph_edges. fst e < n_wires \<and> snd e < n_wires"
    by (simp add: graph_edges_def n_wires_def)
  let ?val = "\<lambda>k. zz_eigenvalue (fst (graph_edges ! k)) (snd (graph_edges ! k))
      (measure_sample n_wires psi (rng !! k))"
  let ?vs = "map ?val [0..<length graph_edges]"
  have calls: "\<forall>k<length graph_edges.
      circuit (sdrop k rng) gammas betas (Some (graph_edges ! k)) n_layers
        = Inr (Expectation (?vs ! k), sdrop (Suc k) rng)"
  proof (intro allI impI)
    fix k assume k: "k < length graph_edges"
    then have "graph_edges ! k \<in> set graph_edges" by simp
    with es have "fst (graph_edges ! k) < n_wires \<and> snd (graph_edges ! k) < n_wires" by blast
    then show "circuit (sdrop k rng) gammas betas (Some (graph_edges ! k)) n_layers
        = Inr (Expectation (?vs ! k), sdrop (Suc k) rng)"
      using k by (simp add: circuit_one_shot cf' st)
  qed
  have pm: "\<forall>v \<in> set ?vs. v = 1 \<or> v = - 1"
    by (auto simp: zz_eigenvalue_def)
  have "(\<Sum>v\<leftarrow>?vs. 1 - v) = (\<Sum>k<length graph_edges. 1 - ?val k)"
    by (simp add: comp_def interv_sum_list_conv_sum_set_nat atLeast0LessThan)
  moreover have "0 < length params"
    using assms(1) by arith
  then have "getitem params 0 = Inr gammas" "getitem params 1 = Inr betas"
    using assms(1,2,3) by (simp_all add: getitem_def)
  ultimately have obj: "objective n_layers rng params
        = Inr (- 0.5 * (\<Sum>v\<leftarrow>?vs. 1 - v), sdrop (length graph_edges) rng)"
    by (simp add: objective_def objective_loop_sum [OF st cf' es])
  from any st calls pm obj show ?thesis
    by (intro exI [of _ tape] exI [of _ psi] exI [of _ ?vs] conjI refl)
qed

theorem objective_value_witness:
  "\<exists>tape psi vs.
      (\<forall>edge. \<exists>m. circuit_func [0] [0] edge 1 = Inr (tape, m))
    \<and> device_state dev tape = Inr psi
    \<and> vs = map (\<lambda>k. zz_eigenvalue (fst (graph_edges ! k)) (snd (graph_edges ! k))
                    (measure_sample n_wires psi (sconst (3 / 10) !! k))) [0..<length graph_edges]
    \<and> (\<forall>k<length graph_edges.
          circuit (sdrop k (sconst (3 / 10))) [0] [0] (Some (graph_edges ! k)) 1
            = Inr (Expectation (vs ! k), sdrop (Suc k) (sconst (3 / 10))))
    \<and> (\<forall>v \<in> set vs. v = 1 \<or> v = - 1)
    \<and> objective 1 (sconst (3 / 10)) [[0], [0]]
        = Inr (- 0.5 * (\<Sum>v\<leftarrow>vs. 1 - v), sdrop (length graph_edges) (sconst (3 / 10)))"
  by (rule objective_value [where gammas = "[0]" and betas = "[0]"]) simp_all

subsection \<open>C2: the mode of a call\<close>


subsection \<open>C7: the objective and the random source\<close>

text \<open>
  C7, as stated, fails: the device of \<^verbatim>\<open>main.py\<close> has \<^verbatim>\<open>shots=1\<close>, so every term of the
  objective is estimated from one sampled bit sequence. At the parameters gamma = 0 and
  beta = 0 an evaluation whose draws are all 0 returns the cost 0, and an evaluation whose
  draws are all 0.3 returns the cost -2.
\<close>

theorem objective_not_deterministic:
  "map_sum id fst (objective 1 (sconst 0) [[0], [0]]) = Inr 0
   \<and> map_sum id fst (objective 1 (sconst (3 / 10)) [[0], [0]]) = Inr (- 2)"
  by (simp add: objective_def getitem_def graph_edges_def zero_angle_shot
      sample_at_0 sample_at_3_10 zz_eigenvalue_def)

lemma objective_loop_draws:
  assumes "stake (length es) rng1 = stake (length es) rng2"
  shows "map_sum id fst (objective_loop n_layers gammas betas es neg_obj rng1)
    = map_sum id fst (objective_loop n_layers gammas betas es neg_obj rng2)"
  using assms
proof (induction es arbitrary: neg_obj rng1 rng2)
  case Nil
  show ?case by simp
next
  case (Cons e es)
  have hd: "shd rng1 = shd rng2" and tl: "stake (length es) (stl rng1) = stake (length es) (stl rng2)"
    using Cons.prems by simp_all
  show ?case
  proof (cases "circuit_func gammas betas (Some e) n_layers")
    case (Inl err)
    then show ?thesis by (simp add: circuit_one_shot)
  next
    case (Inr qtape)
    show ?thesis
    proof (cases "device_state dev (fst qtape)")
      case (Inl err)
      then show ?thesis by (simp add: circuit_one_shot Inr)
    next
      case st: (Inr psi)
      show ?thesis
      proof (cases "snd qtape")
        case Sample
        then show ?thesis by (simp add: circuit_one_shot Inr st)
      next
        case (Expval i j)
        then show ?thesis
          using Cons.IH [OF tl] by (simp add: circuit_one_shot Inr st hd)
      qed
    qed
  qed
qed

text \<open>
  C7, amended. The cost that \<^verbatim>\<open>objective\<close> returns is a function of the parameter array
  and of the draws of the random source that its calls of \<^verbatim>\<open>circuit\<close> consume, one per
  edge of the graph: two evaluations on the same parameters whose random sources agree on
  these draws return the same cost (or fail alike).
\<close>

theorem objective_draws:
  assumes "stake (length graph_edges) rng1 = stake (length graph_edges) rng2"
  shows "map_sum id fst (objective n_layers rng1 params) = map_sum id fst (objective n_layers rng2 params)"
  using objective_loop_draws [OF assms]
  by (simp add: objective_def split: sum.split)

theorem objective_draws_witness:
  "map_sum id fst (objective 1 ([0, 3 / 10, 0, 3 / 10] @- sconst 0) [[0], [0]])
    = map_sum id fst (objective 1 ([0, 3 / 10, 0, 3 / 10] @- sconst (1 / 2)) [[0], [0]])"
  by (rule objective_draws) (simp add: graph_edges_def)

subsection \<open>C8: the cost after the optimizer\<close>

text \<open>
  C8, as stated, fails whatever the optimizer does. The cost at the initial parameters is
  an evaluation of \<^verbatim>\<open>objective\<close>, and so is the final cost, at whatever parameters the 30
  iterations produced. At gamma = 0 and beta = 0 an evaluation whose draws are all 5/16
  samples 0101 for every edge and returns -4, and no evaluation, at any parameters and
  with any draws, returns less than -4: the final cost of that run is not strictly smaller.
\<close>

theorem initial_cost_minimal:
  "map_sum id fst (objective 1 (sconst (5 / 16)) [[0], [0]]) = Inr (- 4)
   \<and> \<not> (\<exists>rng params c r. objective 1 rng params = Inr (c, r) \<and> c < - 4)"
proof
  show "map_sum id fst (objective 1 (sconst (5 / 16)) [[0], [0]]) = Inr (- 4)"
    by (simp add: objective_def getitem_def graph_edges_def zero_angle_shot
        sample_at_5_16 zz_eigenvalue_def)
  show "\<not> (\<exists>rng params c r. objective 1 rng params = Inr (c, r) \<and> c < - 4)"
  proof
    assume "\<exists>rng params c r. objective 1 rng params = Inr (c, r) \<and> c < - 4"
    then obtain rng params c r where o: "objective 1 rng params = Inr (c, r)" and c: "c < - 4"
      by blast
    from objective_values [OF o] c show False by auto
  qed
qed

text \<open>
  C8, amended. On the 4-cycle every evaluation of the cost on the single-shot device, at
  the initial parameters or at the parameters after any number of optimizer iterations,
  returns one of 0, -1, -2, -3 and -4. The final cost is therefore never below -4, and it
  is not strictly smaller than the initial cost in a run whose initial evaluation
  returned -4; a strict improvement is not guaranteed.
\<close>

theorem final_cost_bound:
  assumes "objective n_layers rng0 init_params = Inr (c0, r0)"
    and "objective n_layers rng1 params = Inr (c1, r1)"
  shows "c0 \<in> {0, - 1, - 2, - 3, - 4} \<and> c1 \<in> {0, - 1, - 2, - 3, - 4}
    \<and> (c0 = - 4 \<longrightarrow> \<not> c1 < c0)"
  using objective_values [OF assms(1)] objective_values [OF assms(2)] by auto

theorem final_cost_bound_witness:
  "objective 1 (sconst (5 / 16)) [[0], [0]] = Inr (- 4, sconst (5 / 16))
   \<and> objective 1 (sconst 0) [[0], [0]] = Inr (0, sconst 0)
   \<and> (- 4 :: real) \<in> {0, - 1, - 2, - 3, - 4} \<and> (0 :: real) \<in> {0, - 1, - 2, - 3, - 4}
   \<and> \<not> (0 :: real) < - 4"
proof -
  have a: "objective 1 (sconst (5 / 16)) [[0], [0]] = Inr (- 4, sconst (5 / 16))"
    by (simp add: objective_def getitem_def graph_edges_def zero_angle_shot
        sample_at_5_16 zz_eigenvalue_def)
  have b: "objective 1 (sconst 0) [[0], [0]] = Inr (0, sconst 0)"
    by (simp add: objective_def getitem_def graph_edges_def zero_angle_shot
        sample_at_0 zz_eigenvalue_def)
  from final_cost_bound [OF a b] a b show ?thesis by simp
qed

end
